theory Spec2Isabelle
  imports Main "HOL-Library.Word" "HOL-Library.Multiset"
begin

unbundle bit_operations_syntax

section \<open>Go values shared by the packages\<close>

text \<open>
  Go's \<open>byte\<close> is an 8-bit word; \<open>int\<close> (on the 64-bit targets the server is built
  for) and \<open>int64\<close> are 64-bit two's-complement words: \<open>+\<close> and \<open>-\<close> wrap, comparisons
  are the signed ones (\<open><=s\<close>, \<open><s\<close>).
\<close>

type_synonym byte = "8 word"
type_synonym int64 = "64 word"

text \<open>The error values the modelled functions return or pass on.\<close>

datatype error =
    ErrFatal              \<comment> \<open>\<open>errors.New("broken content size")\<close>, playback\<close>
  | EOF                   \<comment> \<open>\<open>io.EOF\<close>\<close>
  | ErrUnexpectedEOF      \<comment> \<open>\<open>io.ErrUnexpectedEOF\<close>\<close>
  | ErrIndexIsOld         \<comment> \<open>\<open>errors.New("index is old")\<close>\<close>
  | NetOpError            \<comment> \<open>a \<open>*net.OpError\<close>: the client went away\<close>
  | ErrSyntax             \<comment> \<open>\<open>strconv.ErrSyntax\<close>\<close>
  | ErrRange              \<comment> \<open>\<open>strconv.ErrRange\<close>\<close>
  | ErrNotExist           \<comment> \<open>\<open>os\<close>: the file does not exist\<close>
  | ErrPermission         \<comment> \<open>\<open>os\<close>: the file cannot be created or renamed\<close>
  | ErrNoSpace            \<comment> \<open>\<open>os\<close>: a write that the device refused\<close>
  | ErrZoneOffset         \<comment> \<open>\<open>Time.MarshalBinary: unexpected zone offset\<close>\<close>
  | ErrTimeVersion        \<comment> \<open>\<open>Time.UnmarshalBinary: unsupported version\<close>\<close>
  | ErrTimeLength         \<comment> \<open>\<open>Time.UnmarshalBinary: invalid length\<close>\<close>
  | ErrInvalidTrackID "32 word"  \<comment> \<open>\<open>fmt.Errorf("invalid track ID: %v", ...)\<close>\<close>
  | ErrDecode             \<comment> \<open>the mp4 library could not decode a box payload\<close>
  | ErrBoxStructure       \<comment> \<open>the box walker's framing errors\<close>
  | ErrInit               \<comment> \<open>the initialization metadata could not be parsed\<close>

text \<open>A call either returns or panics (Go's run-time panic on a bad slice bound or a
  division by zero).\<close>

datatype 'a go = Panic | Return 'a

definition len :: "'a list \<Rightarrow> int64" where
  "len xs = of_nat (length xs)"

definition MaxInt :: int64 where
  "MaxInt = 9223372036854775807"

section \<open>playback: the Range Response Writer\<close>

subsection \<open>The response the writer writes to\<close>

text \<open>
  Of \<open>gin.Context\<close> the writer uses \<open>Header\<close>, \<open>Status\<close> and \<open>Writer.Write\<close>. The
  model keeps the headers set so far (latest first), the status, the body bytes that
  reached the client, and whether the connection is still up: a write on a connection
  that is down fails with a network error and delivers nothing.
\<close>

record gin_Context =
  headers :: "(string \<times> string) list"
  status :: nat
  body :: "byte list"
  alive :: bool

definition Header :: "gin_Context \<Rightarrow> string \<Rightarrow> string \<Rightarrow> gin_Context" where
  "Header c k v = c\<lparr>headers := (k, v) # headers c\<rparr>"

definition Status :: "gin_Context \<Rightarrow> nat \<Rightarrow> gin_Context" where
  "Status c code = c\<lparr>status := code\<rparr>"

definition Writer_Write :: "gin_Context \<Rightarrow> byte list \<Rightarrow> gin_Context \<times> (error + int64)" where
  "Writer_Write c p =
     (if alive c then (c\<lparr>body := body c @ p\<rparr>, Inr (len p)) else (c, Inl NetOpError))"

subsection \<open>Slices\<close>

text \<open>
  A \<open>[]byte\<close> argument is its visible elements \<open>p\<close> together with the elements of
  its backing array between \<open>len(p)\<close> and \<open>cap(p)\<close> (\<open>spare\<close>). \<open>p[:k]\<close> panics
  unless \<open>0 \<le> k \<le> cap(p)\<close> and may reach into the spare elements; \<open>p[k:]\<close> panics unless
  \<open>0 \<le> k \<le> len(p)\<close>.
\<close>

definition slice_to :: "byte list \<Rightarrow> byte list \<Rightarrow> int64 \<Rightarrow> byte list go" where
  "slice_to p spare k =
     (if 0 <=s k \<and> sint k \<le> int (length p + length spare)
      then Return (take (nat (sint k)) (p @ spare)) else Panic)"

definition slice_from :: "byte list \<Rightarrow> int64 \<Rightarrow> byte list go" where
  "slice_from p k =
     (if 0 <=s k \<and> sint k \<le> int (length p)
      then Return (drop (nat (sint k)) p) else Panic)"

subsection \<open>writerWrapper\<close>

record writerWrapper =
  ctx :: gin_Context
  length_w :: int64     \<comment> \<open>field \<open>length\<close>: data length, accumulated during first pass\<close>
  skipped :: int64      \<comment> \<open>bytes skipped during second pass\<close>
  sent :: int64         \<comment> \<open>byte sent\<close>
  offset :: int64       \<comment> \<open>offset as requested\<close>
  offset2 :: int64      \<comment> \<open>end offset\<close>
  pass1 :: bool         \<comment> \<open>scan pass\<close>
  written :: bool

definition writeHeaders :: "writerWrapper \<Rightarrow> writerWrapper" where
  "writeHeaders w =
     w\<lparr>written := True,
       ctx := Header (Header (ctx w) ''Accept-Ranges'' ''bytes'') ''Content-Type'' ''video/mp4''\<rparr>"

text \<open>
  \<open>Write\<close> returns the updated writer, the count \<open>n\<close> and the error. The branches are
  the source's, in its order: first pass; second pass, write stage; skip of a whole
  buffer; skip of part of a buffer.
\<close>

definition Write ::
  "writerWrapper \<Rightarrow> byte list \<Rightarrow> byte list \<Rightarrow> (writerWrapper \<times> int64 \<times> error option) go" where
  "Write w p spare =
     (let n = len p in
      if pass1 w then Return (w\<lparr>length_w := length_w w + n\<rparr>, n, None)
      else if offset w <=s skipped w then
        (let w1 = (if \<not> written w then writeHeaders w else w);
             clamp = offset2 w1 <s sent w1 + len p + 1;
             bytesToWrite = (if clamp then offset2 w1 + 1 - sent w1 else len p)
         in case (if clamp then slice_to p spare bytesToWrite else Return p) of
              Panic \<Rightarrow> Panic
            | Return p' \<Rightarrow>
               (case Writer_Write (ctx w1) p' of
                  (c, Inl e) \<Rightarrow> Return (w1\<lparr>ctx := c\<rparr>, 0, Some e)
                | (c, Inr m) \<Rightarrow>
                    (let w2 = w1\<lparr>ctx := c, sent := sent w1 + m\<rparr>
                     in Return (w2, m, if offset2 w2 <=s sent w2 then Some EOF else None))))
      else if skipped w + n <=s offset w then Return (w\<lparr>skipped := skipped w + n\<rparr>, n, None)
      else
        (let bytesToSkip = offset w - skipped w;
             w1 = w\<lparr>skipped := skipped w + bytesToSkip\<rparr>
         in if offset w1 <s skipped w1 then Return (w1, 0, Some ErrFatal)
            else
              (let w2 = (if \<not> written w1 then writeHeaders w1 else w1)
               in case slice_from p bytesToSkip of
                    Panic \<Rightarrow> Panic
                  | Return p' \<Rightarrow>
                     (case Writer_Write (ctx w2) p' of
                        (c, Inl e) \<Rightarrow> Return (w2\<lparr>ctx := c\<rparr>, 0, Some e)
                      | (c, Inr m) \<Rightarrow> Return (w2\<lparr>ctx := c\<rparr>, m, None)))))"

text \<open>The guard of the last branch: second pass, still skipping, and the buffer
  straddles \<open>offset\<close>.\<close>

definition skips_part :: "writerWrapper \<Rightarrow> byte list \<Rightarrow> bool" where
  "skips_part w p =
     (\<not> pass1 w \<and> \<not> offset w <=s skipped w \<and> \<not> skipped w + len p <=s offset w)"

subsection \<open>The request handler\<close>

text \<open>\<open>strings.IndexRune\<close>: the index of the first occurrence, or -1.\<close>

fun IndexRune_from :: "string \<Rightarrow> char \<Rightarrow> int \<Rightarrow> int" where
  "IndexRune_from [] r i = -1"
| "IndexRune_from (c # cs) r i = (if c = r then i else IndexRune_from cs r (i + 1))"

definition IndexRune :: "string \<Rightarrow> char \<Rightarrow> int" where
  "IndexRune s r = IndexRune_from s r 0"

text \<open>
  \<open>strconv.Atoi\<close>: an optional sign and one or more decimal digits; anything else is
  a syntax error, a value outside the 64-bit range a range error. (The value Go returns
  beside an error is overwritten by the caller and is not kept here.)
\<close>

fun digits_val :: "string \<Rightarrow> int \<Rightarrow> int option" where
  "digits_val [] acc = Some acc"
| "digits_val (c # cs) acc =
     (if 48 \<le> (of_char c :: nat) \<and> (of_char c :: nat) \<le> 57
      then digits_val cs (acc * 10 + (int (of_char c) - 48)) else None)"

definition Atoi :: "string \<Rightarrow> error + int64" where
  "Atoi s =
     (let neg = (s \<noteq> [] \<and> hd s = CHR ''-'');
          ds = (if s \<noteq> [] \<and> (hd s = CHR ''-'' \<or> hd s = CHR ''+'') then tl s else s)
      in if ds = [] then Inl ErrSyntax
         else case digits_val ds 0 of
                None \<Rightarrow> Inl ErrSyntax
              | Some v \<Rightarrow>
                  (let v' = (if neg then - v else v)
                   in if v' < - (2 ^ 63) \<or> 2 ^ 63 \<le> v' then Inl ErrRange
                      else Inr (word_of_int v')))"

text \<open>\<open>strconv.Itoa\<close> / the \<open>%d\<close> verb, for the \<open>Content-Range\<close> header.\<close>

fun Itoa_nat :: "nat \<Rightarrow> string" where
  "Itoa_nat n =
     (if n < 10 then [char_of (48 + n)] else Itoa_nat (n div 10) @ [char_of (48 + n mod 10)])"

definition Itoa :: "int64 \<Rightarrow> string" where
  "Itoa v = (if v <s 0 then CHR ''-'' # Itoa_nat (nat (- sint v)) else Itoa_nat (nat (sint v)))"

text \<open>
  The part of \<open>onGet\<close> that reads the \<open>Range\<close> header (\<open>Range: bytes=int-[int]\<close>) into
  the writer. A header that does not parse turns the first pass off: the request is
  served as an unranged one.
\<close>

definition onGet_range :: "string \<Rightarrow> writerWrapper \<Rightarrow> writerWrapper" where
  "onGet_range range_hdr ww =
     (let n1 = IndexRune range_hdr (CHR ''='');
          n2 = IndexRune range_hdr (CHR ''-'')
      in if 0 \<le> n1 \<and> n1 < n2 then
           (case Atoi (take (nat (n2 - (n1 + 1))) (drop (nat (n1 + 1)) range_hdr)) of
              Inl e \<Rightarrow> ww\<lparr>offset := 0, pass1 := False\<rparr>
            | Inr v \<Rightarrow>
                (if drop (nat (n2 + 1)) range_hdr \<noteq> [] then
                   (case Atoi (drop (nat (n2 + 1)) range_hdr) of
                      Inl e \<Rightarrow> ww\<lparr>offset := v, offset2 := MaxInt, pass1 := False\<rparr>
                    | Inr v2 \<Rightarrow> ww\<lparr>offset := v, offset2 := v2\<rparr>)
                 else ww\<lparr>offset := v\<rparr>))
         else ww\<lparr>pass1 := False\<rparr>)"

text \<open>
  Modelled from the spec: the muxer (\<open>writeInit\<close>, the part muxing and \<open>flush\<close>) and the
  segment readers that \<open>seekAndMux\<close> drives are not among the sources. The spec makes
  muxing a pure function of \<open>(segments, start, duration)\<close> whose output reaches the sink
  as a sequence of writes, and has the mux loop stop at the first error the sink returns
  (the end-of-stream signal included). So a request with fixed \<open>path/start/duration\<close>
  is the list of buffers the muxer hands to \<open>Write\<close>, the same in both passes, and
  \<open>seekAndMux\<close> writes them in order until a \<open>Write\<close> returns an error.
\<close>

fun seekAndMux ::
  "writerWrapper \<Rightarrow> (byte list \<times> byte list) list \<Rightarrow> (writerWrapper \<times> error option) go" where
  "seekAndMux w [] = Return (w, None)"
| "seekAndMux w ((p, spare) # rest) =
     (case Write w p spare of
        Panic \<Rightarrow> Panic
      | Return (w', n, Some e) \<Rightarrow> Return (w', Some e)
      | Return (w', n, None) \<Rightarrow> seekAndMux w' rest)"

text \<open>
  \<open>handleError\<close>: end-of-stream and no error let the handler go on. Any other error
  stops it; when nothing has been written yet, an error other than the client's
  disconnect is answered with an error status (\<open>writeError\<close>, which is not among the
  sources, is kept as the status it sets: 400 for the errors that can arise here).
\<close>

definition handleError :: "gin_Context \<Rightarrow> bool \<Rightarrow> error option \<Rightarrow> gin_Context \<times> bool" where
  "handleError c wr err =
     (case err of
        None \<Rightarrow> (c, False)
      | Some e \<Rightarrow>
         (if e = EOF then (c, False)
          else if e = NetOpError then (c, True)
          else if \<not> wr then (Status c 400, True)
          else (c, True)))"

text \<open>
  \<open>onGet\<close> for a request whose query parameters are valid and whose segments were
  found (the early returns before the first pass answer an error and write no body):
  pass 1 when the \<open>Range\<close> header parsed, then pass 2. The result is the response.
\<close>

definition onGet_pass1 ::
  "writerWrapper \<Rightarrow> (byte list \<times> byte list) list \<Rightarrow> (gin_Context + writerWrapper) go" where
  "onGet_pass1 ww chunks =
     (case seekAndMux ww chunks of
        Panic \<Rightarrow> Panic
      | Return (ww1, err) \<Rightarrow>
         (case handleError (ctx ww1) False err of
            (c, True) \<Rightarrow> Return (Inl c)
          | (c, False) \<Rightarrow>
             (let ww2 = (if offset2 ww1 = MaxInt then ww1\<lparr>offset2 := length_w ww1 - 1\<rparr> else ww1);
                  c1 = Header c ''Accept-Ranges'' ''bytes'';
                  c2 = Header c1 ''Content-Type'' ''video/mp4'';
                  c3 = Header c2 ''Content-Range''
                         (''bytes '' @ Itoa (offset ww2) @ ''-'' @ Itoa (offset2 ww2)
                            @ ''/'' @ Itoa (length_w ww2));
                  c4 = Status c3 206
              in Return (Inr (ww2\<lparr>ctx := c4, pass1 := False, written := True\<rparr>)))))"

definition onGet :: "string \<Rightarrow> (byte list \<times> byte list) list \<Rightarrow> gin_Context \<Rightarrow> gin_Context go" where
  "onGet range_hdr chunks c =
     (let ww = onGet_range range_hdr
                 \<lparr>ctx = c, length_w = 0, skipped = 0, sent = 0, offset = 0,
                  offset2 = MaxInt, pass1 = True, written = False\<rparr>
      in case (if pass1 ww then onGet_pass1 ww chunks else Return (Inr ww)) of
           Panic \<Rightarrow> Panic
         | Return (Inl c') \<Rightarrow> Return c'
         | Return (Inr ww') \<Rightarrow>
            (case seekAndMux ww' chunks of
               Panic \<Rightarrow> Panic
             | Return (ww2, err) \<Rightarrow> Return (fst (handleError (ctx ww2) (written ww2) err))))"

text \<open>A fresh response, and the body a request delivers (empty on a panic).\<close>

definition new_Context :: gin_Context where
  "new_Context = \<lparr>headers = [], status = 200, body = [], alive = True\<rparr>"

definition delivered :: "string \<Rightarrow> (byte list \<times> byte list) list \<Rightarrow> byte list" where
  "delivered range_hdr chunks =
     (case onGet range_hdr chunks new_Context of Panic \<Rightarrow> [] | Return c \<Rightarrow> body c)"

section \<open>The standard library's time values\<close>

text \<open>
  A \<open>time.Time\<close> without monotonic reading (every time the index stores went through
  \<open>Truncate(0)\<close> or was decoded from a file) is what its binary encoding carries: the
  seconds since year 1 (\<open>int64\<close>), the nanoseconds within the second (\<open>int32\<close>, in
  \<open>[0, 999999999]\<close> for every value the library constructs) and the zone: \<open>None\<close>
  for UTC, else the offset in seconds east of UTC. \<open>After\<close>, \<open>Before\<close>, \<open>Equal\<close> and
  \<open>Sub\<close> are the library's documented ones: they compare the time instants and ignore
  the zone.
\<close>

record time_Time =
  sec :: int64
  nsec :: "32 word"
  zone :: "int option"

definition instant :: "time_Time \<Rightarrow> int" where
  "instant t = sint (sec t) * 1000000000 + uint (nsec t)"

definition After :: "time_Time \<Rightarrow> time_Time \<Rightarrow> bool" where
  "After t u = (instant u < instant t)"

definition Before :: "time_Time \<Rightarrow> time_Time \<Rightarrow> bool" where
  "Before t u = (instant t < instant u)"

definition Equal :: "time_Time \<Rightarrow> time_Time \<Rightarrow> bool" where
  "Equal t u = (instant t = instant u)"

text \<open>\<open>t.Truncate(0)\<close> strips the monotonic clock reading and changes nothing else.\<close>

definition Truncate_0 :: "time_Time \<Rightarrow> time_Time" where
  "Truncate_0 t = t"

text \<open>\<open>t.Sub(u)\<close> is the duration \<open>t - u\<close> in nanoseconds, and the largest or smallest
  \<open>Duration\<close> when the difference does not fit.\<close>

definition Sub :: "time_Time \<Rightarrow> time_Time \<Rightarrow> int64" where
  "Sub t u =
     (let d = instant t - instant u
      in word_of_int (if d < - (2 ^ 63) then - (2 ^ 63) else if 2 ^ 63 - 1 < d then 2 ^ 63 - 1 else d))"

text \<open>Go's integer division and remainder truncate towards zero.\<close>

definition quo :: "int \<Rightarrow> int \<Rightarrow> int" where
  "quo a b = sgn a * sgn b * (\<bar>a\<bar> div \<bar>b\<bar>)"

definition rem :: "int \<Rightarrow> int \<Rightarrow> int" where
  "rem a b = a - b * quo a b"

text \<open>
  \<open>t.Add(d)\<close>: the seconds and nanoseconds of \<open>d\<close> are added with a carry into the
  seconds, which saturate at the ends of \<open>int64\<close>.
\<close>

definition Add :: "time_Time \<Rightarrow> int64 \<Rightarrow> time_Time" where
  "Add t d =
     (let dsec = quo (sint d) 1000000000;
          ns = uint (nsec t) + rem (sint d) 1000000000;
          dsec' = (if 1000000000 \<le> ns then dsec + 1 else if ns < 0 then dsec - 1 else dsec);
          ns' = (if 1000000000 \<le> ns then ns - 1000000000 else if ns < 0 then ns + 1000000000 else ns);
          sum = sint (sec t) + dsec';
          sum' = (if 2 ^ 63 - 1 < sum then 2 ^ 63 - 1 else if sum < - (2 ^ 63) then - (2 ^ 63 - 1) else sum)
      in t\<lparr>sec := word_of_int sum', nsec := word_of_int ns'\<rparr>)"

subsection \<open>Big-endian integers\<close>

definition be16 :: "16 word \<Rightarrow> byte list" where
  "be16 v = [ucast (drop_bit 8 v), ucast v]"

definition be32 :: "32 word \<Rightarrow> byte list" where
  "be32 v = [ucast (drop_bit 24 v), ucast (drop_bit 16 v), ucast (drop_bit 8 v), ucast v]"

definition be64 :: "int64 \<Rightarrow> byte list" where
  "be64 v = [ucast (drop_bit 56 v), ucast (drop_bit 48 v), ucast (drop_bit 40 v),
             ucast (drop_bit 32 v), ucast (drop_bit 24 v), ucast (drop_bit 16 v),
             ucast (drop_bit 8 v), ucast v]"

definition de16 :: "byte list \<Rightarrow> 16 word" where
  "de16 b = ucast (b ! 1) OR push_bit 8 (ucast (b ! 0))"

definition de32 :: "byte list \<Rightarrow> 32 word" where
  "de32 b = ucast (b ! 3) OR push_bit 8 (ucast (b ! 2)) OR push_bit 16 (ucast (b ! 1))
              OR push_bit 24 (ucast (b ! 0))"

definition de64 :: "byte list \<Rightarrow> int64" where
  "de64 b = ucast (b ! 7) OR push_bit 8 (ucast (b ! 6)) OR push_bit 16 (ucast (b ! 5))
              OR push_bit 24 (ucast (b ! 4)) OR push_bit 32 (ucast (b ! 3))
              OR push_bit 40 (ucast (b ! 2)) OR push_bit 48 (ucast (b ! 1))
              OR push_bit 56 (ucast (b ! 0))"

subsection \<open>The binary encoding of a time\<close>

text \<open>
  \<open>MarshalBinary\<close>: byte 0 is the version, bytes 1-8 the seconds, 9-12 the
  nanoseconds, 13-14 the zone offset in minutes (-1 for UTC). A zone offset with a
  fraction of a minute takes version 2 and a sixteenth byte for the seconds of the
  offset. The encoding fails for a zone whose offset in minutes is -1 or does not fit
  16 bits.
\<close>

definition MarshalBinary :: "time_Time \<Rightarrow> error + byte list" where
  "MarshalBinary t =
     (case zone t of
        None \<Rightarrow> Inr ([1] @ be64 (sec t) @ be32 (nsec t) @ be16 (- 1))
      | Some off \<Rightarrow>
         (let version = (if rem off 60 \<noteq> 0 then 2 else 1);
              offsetSec = (word_of_int (rem off 60) :: byte);
              offm = quo off 60
          in if offm < - 32768 \<or> offm = - 1 \<or> 32767 < offm then Inl ErrZoneOffset
             else Inr ([version] @ be64 (sec t) @ be32 (nsec t) @ be16 (word_of_int offm)
                        @ (if version = 2 then [offsetSec] else []))))"

text \<open>
  \<open>UnmarshalBinary\<close>: the version must be 1 (15 bytes) or 2 (16 bytes). The zone is UTC
  for the offset of -1 minute; the byte of a version 2 offset is added unsigned.
\<close>

definition UnmarshalBinary :: "byte list \<Rightarrow> error + time_Time" where
  "UnmarshalBinary buf =
     (if buf = [] then Inl ErrTimeLength
      else if hd buf \<noteq> 1 \<and> hd buf \<noteq> 2 then Inl ErrTimeVersion
      else if length buf \<noteq> (if hd buf = 2 then 16 else 15) then Inl ErrTimeLength
      else
        (let off = sint (de16 (take 2 (drop 13 buf))) * 60
                     + (if hd buf = 2 then uint (buf ! 15) else 0)
         in Inr \<lparr>sec = de64 (take 8 (drop 1 buf)), nsec = de32 (take 4 (drop 9 buf)),
                 zone = (if off = - 60 then None else Some off)\<rparr>))"

section \<open>The file system\<close>

text \<open>
  The files by name, the number of bytes the device still accepts (\<open>quota\<close>), and the
  names that cannot be created or renamed onto (\<open>denied\<close>). A write that exceeds the
  quota stores the bytes that fit and fails; creating a file truncates it; removing a
  file that is not there changes nothing.
\<close>

record fs =
  files :: "string \<rightharpoonup> byte list"
  quota :: nat
  denied :: "string set"

definition os_Create :: "fs \<Rightarrow> string \<Rightarrow> fs \<times> error option" where
  "os_Create s name =
     (if name \<in> denied s then (s, Some ErrPermission)
      else (s\<lparr>files := (files s)(name \<mapsto> [])\<rparr>, None))"

definition File_Write :: "fs \<Rightarrow> string \<Rightarrow> byte list \<Rightarrow> fs \<times> error option" where
  "File_Write s name b =
     (case files s name of
        None \<Rightarrow> (s, Some ErrNotExist)
      | Some old \<Rightarrow>
         (if length b \<le> quota s
          then (s\<lparr>files := (files s)(name \<mapsto> old @ b), quota := quota s - length b\<rparr>, None)
          else (s\<lparr>files := (files s)(name \<mapsto> old @ take (quota s) b), quota := 0\<rparr>,
                Some ErrNoSpace)))"

definition os_Remove :: "fs \<Rightarrow> string \<Rightarrow> fs" where
  "os_Remove s name = s\<lparr>files := (files s)(name := None)\<rparr>"

definition os_Rename :: "fs \<Rightarrow> string \<Rightarrow> string \<Rightarrow> fs \<times> error option" where
  "os_Rename s old new =
     (case files s old of
        None \<Rightarrow> (s, Some ErrNotExist)
      | Some b \<Rightarrow>
         (if new \<in> denied s then (s, Some ErrPermission)
          else (s\<lparr>files := ((files s)(old := None))(new \<mapsto> b)\<rparr>, None)))"

section \<open>playback: the index\<close>

record indexEntry =
  Time :: time_Time     \<comment> \<open>Entry's absolute time\<close>
  Offset :: int64       \<comment> \<open>Data offset on segment file\<close>

text \<open>The index: the entries by path and the running jobs. (The lock is part of the
  model of concurrent rebuilds further down.)\<close>

record index =
  entries :: "string \<rightharpoonup> indexEntry list"
  running :: "string set"

definition indexCmp :: "indexEntry \<Rightarrow> indexEntry \<Rightarrow> int64" where
  "indexCmp a b = Sub (Time a) (Time b)"

text \<open>\<open>path.Ext\<close>: the suffix from the last dot of the last path element, or nothing.\<close>

definition Ext :: "string \<Rightarrow> string" where
  "Ext p =
     (let r = rev p;
          k = length (takeWhile (\<lambda>c. c \<noteq> CHR ''.'' \<and> c \<noteq> CHR ''/'') r)
      in if k < length r \<and> r ! k = CHR ''.'' then drop (length p - (k + 1)) p else [])"

definition indexFileName :: "string \<Rightarrow> string" where
  "indexFileName filePath = take (length filePath - length (Ext filePath)) filePath @ ''.idx''"

subsection \<open>Merging and appending\<close>

text \<open>
  \<open>slices.SortStableFunc\<close> sorts by \<open>cmp\<close> and keeps the original order of the elements
  that compare equal. It is written here as the insertion sort the library runs on short
  blocks: each element moves left past the elements it is strictly less than.
\<close>

fun insert_stable :: "('a \<Rightarrow> 'a \<Rightarrow> int64) \<Rightarrow> 'a \<Rightarrow> 'a list \<Rightarrow> 'a list" where
  "insert_stable cmp x [] = [x]"
| "insert_stable cmp x (y # ys) =
     (if cmp x y <s 0 then x # y # ys else y # insert_stable cmp x ys)"

definition SortStableFunc :: "'a list \<Rightarrow> ('a \<Rightarrow> 'a \<Rightarrow> int64) \<Rightarrow> 'a list" where
  "SortStableFunc xs cmp = foldl (\<lambda>sorted x. insert_stable cmp x sorted) [] xs"

text \<open>
  The block \<open>appendIndex\<close> of \<open>IndexPath\<close>, run under the lock once per segment: the
  segment's entries are appended to the path's list and the list is sorted. (A path
  without a list reads as the nil slice.)
\<close>

definition appendIndex :: "index \<Rightarrow> string \<Rightarrow> indexEntry list \<Rightarrow> index" where
  "appendIndex i pathName lst =
     (let curList = (case entries i pathName of None \<Rightarrow> [] | Some l \<Rightarrow> l);
          curList' = SortStableFunc (curList @ lst) indexCmp
      in i\<lparr>entries := (entries i)(pathName \<mapsto> curList')\<rparr>)"

definition Update :: "index \<Rightarrow> string \<Rightarrow> time_Time \<Rightarrow> int64 \<Rightarrow> index" where
  "Update i pathName segmentTime off =
     (let e = (case entries i pathName of None \<Rightarrow> [] | Some l \<Rightarrow> l);
          e' = e @ [\<lparr>Time = Truncate_0 segmentTime, Offset = off\<rparr>]
      in i\<lparr>entries := (entries i)(pathName \<mapsto> e')\<rparr>)"

subsection \<open>Lookup and pruning\<close>

function FindBestOffset_loop :: "indexEntry list \<Rightarrow> time_Time \<Rightarrow> nat \<Rightarrow> int64" where
  "FindBestOffset_loop es start n =
     (if n < length es then
        (if After (Time (es ! n)) start then
           (if 0 < n \<and> Offset (es ! n) \<noteq> 0 then Offset (es ! (n - 1)) else 0)
         else FindBestOffset_loop es start (n + 1))
      else 0)"
  by pat_completeness auto
termination
  by (relation "measure (\<lambda>(es, start, n). length es - n)") auto

declare FindBestOffset_loop.simps [simp del]

definition FindBestOffset :: "index \<Rightarrow> string \<Rightarrow> time_Time \<Rightarrow> int64" where
  "FindBestOffset i pathName start =
     (case entries i pathName of
        None \<Rightarrow> 0
      | Some es \<Rightarrow> FindBestOffset_loop es (Truncate_0 start) 0)"

text \<open>The two loops of \<open>PruneIndex\<close>: \<open>n0\<close> stops at the first entry that is not before
  \<open>start\<close>, \<open>n1\<close> (from \<open>n0 + 1\<close>) at the first entry with offset 0; both stop at the end
  of the list.\<close>

function PruneIndex_n0 :: "indexEntry list \<Rightarrow> time_Time \<Rightarrow> nat \<Rightarrow> nat" where
  "PruneIndex_n0 idx start n0 =
     (if n0 < length idx then
        (if \<not> Before (Time (idx ! n0)) start then n0 else PruneIndex_n0 idx start (n0 + 1))
      else n0)"
  by pat_completeness auto
termination
  by (relation "measure (\<lambda>(idx, start, n0). length idx - n0)") auto

declare PruneIndex_n0.simps [simp del]

function PruneIndex_n1 :: "indexEntry list \<Rightarrow> nat \<Rightarrow> nat" where
  "PruneIndex_n1 idx n1 =
     (if n1 < length idx then
        (if Offset (idx ! n1) = 0 then n1 else PruneIndex_n1 idx (n1 + 1))
      else n1)"
  by pat_completeness auto
termination
  by (relation "measure (\<lambda>(idx, n1). length idx - n1)") auto

declare PruneIndex_n1.simps [simp del]

definition PruneIndex :: "index \<Rightarrow> string \<Rightarrow> time_Time \<Rightarrow> index" where
  "PruneIndex i pathName start =
     (case entries i pathName of
        None \<Rightarrow> i
      | Some idx \<Rightarrow>
         (if length idx = 0 \<or> Before (Time (idx ! (length idx - 1))) start then i
          else
            (let n0 = PruneIndex_n0 idx start 0;
                 n1 = PruneIndex_n1 idx (n0 + 1);
                 idx' = take n0 idx @ drop n1 idx
             in i\<lparr>entries := (entries i)(pathName \<mapsto> idx')\<rparr>)))"

subsection \<open>The sidecar file\<close>

text \<open>
  \<open>os.File.Read\<close> into a buffer of 16 bytes, on the bytes that are left of a regular
  file: the bytes read (at most 16), the rest, and \<open>io.EOF\<close> when nothing is left.
\<close>

definition Read16 :: "byte list \<Rightarrow> byte list \<times> byte list \<times> error option" where
  "Read16 rest = (if rest = [] then ([], [], Some EOF) else (take 16 rest, drop 16 rest, None))"

text \<open>\<open>binary.Read(f, binary.BigEndian, &entry.Offset)\<close>: eight bytes or an error,
  \<open>io.EOF\<close> when none is left and \<open>io.ErrUnexpectedEOF\<close> when fewer than eight are.\<close>

definition binary_Read_int64 :: "byte list \<Rightarrow> error + (int64 \<times> byte list)" where
  "binary_Read_int64 rest =
     (if rest = [] then Inl EOF
      else if length rest < 8 then Inl ErrUnexpectedEOF
      else Inr (de64 (take 8 rest), drop 8 rest))"

text \<open>The record loop of \<open>readIndexFile\<close>: the entries read and the \<open>err\<close> the loop
  ends with.\<close>

function readIndexFile_loop ::
  "byte list \<Rightarrow> indexEntry list \<Rightarrow> indexEntry list \<times> error option" where
  "readIndexFile_loop rest idx =
     (case Read16 rest of
        (b, rest1, Some e) \<Rightarrow> (idx, Some e)
      | (b, rest1, None) \<Rightarrow>
         (if length b \<noteq> 16 then (idx, None)
          else
            (case (if b ! 0 = 1 then UnmarshalBinary (take 15 b) else UnmarshalBinary b) of
               Inl e \<Rightarrow> (idx, Some e)
             | Inr t \<Rightarrow>
                (case binary_Read_int64 rest1 of
                   Inl e \<Rightarrow> (idx, Some e)
                 | Inr (off, rest2) \<Rightarrow>
                     readIndexFile_loop rest2 (idx @ [\<lparr>Time = t, Offset = off\<rparr>])))))"
  by pat_completeness auto
termination
  by (relation "measure (\<lambda>(rest, idx). length rest)")
     (auto simp: Read16_def binary_Read_int64_def split: if_splits)

declare readIndexFile_loop.simps [simp del]

text \<open>
  \<open>readIndexFile\<close> returns the entries and the error. The header test is the source's:
  the file is refused when the first byte is not \<open>S\<close> and the second is not \<open>I\<close> and the
  third is not \<open>D\<close> and the fourth is not \<open>X\<close>.
\<close>

definition readIndexFile :: "fs \<Rightarrow> string \<Rightarrow> indexEntry list \<times> error option" where
  "readIndexFile s indexPath =
     (case files s indexPath of
        None \<Rightarrow> ([], Some ErrNotExist)
      | Some content \<Rightarrow>
         (case Read16 content of
            (b, rest, err) \<Rightarrow>
              (if err \<noteq> None \<or> length b \<noteq> 16 then ([], Some ErrIndexIsOld)
               else if b ! 0 \<noteq> of_char (CHR ''S'') \<and> b ! 1 \<noteq> of_char (CHR ''I'')
                       \<and> b ! 2 \<noteq> of_char (CHR ''D'') \<and> b ! 3 \<noteq> of_char (CHR ''X'')
               then ([], Some ErrIndexIsOld)
               else
                 (case readIndexFile_loop rest [] of
                    (idx, err') \<Rightarrow>
                      (if err' \<noteq> Some EOF \<and> err' \<noteq> Some ErrUnexpectedEOF then ([], err')
                       else (idx, None))))))"

definition sidx_header :: "byte list" where
  "sidx_header = [of_char (CHR ''S''), of_char (CHR ''I''), of_char (CHR ''D''),
                  of_char (CHR ''X''), 1, 0, 0, 0, 0, 0, 0, 0, 0, 0, 0, 0]"

text \<open>
  The record loop of \<open>writeIndex\<close>. Its \<open>err\<close> is declared by \<open>:=\<close> inside the loop body
  (\<open>b, err := entry.Time.MarshalBinary()\<close>): a variable of the loop's own, which the
  writes in the body assign and which is gone when the loop is left.
\<close>

fun writeIndex_loop :: "fs \<Rightarrow> string \<Rightarrow> indexEntry list \<Rightarrow> fs \<times> error option" where
  "writeIndex_loop s f [] = (s, None)"
| "writeIndex_loop s f (entry # rest) =
     (case MarshalBinary (Time entry) of
        Inl e \<Rightarrow> (s, Some e)
      | Inr b \<Rightarrow>
         (let b' = (if length b = 15 then b @ [0] else b)
          in case File_Write s f b' of
               (s1, Some e) \<Rightarrow> (s1, Some e)
             | (s1, None) \<Rightarrow>
                (case File_Write s1 f (be64 (Offset entry)) of
                   (s2, Some e) \<Rightarrow> (s2, Some e)
                 | (s2, None) \<Rightarrow> writeIndex_loop s2 f rest)))"

text \<open>
  \<open>writeIndex\<close> returns the file system and the error. \<open>err\<close> is the function's
  variable, set by \<open>os.Create\<close>; the result of writing the header is dropped, and the
  loop's error (\<open>loop_err\<close>) is not the \<open>err\<close> that is tested after \<open>f.Close()\<close>.
\<close>

definition writeIndex :: "fs \<Rightarrow> string \<Rightarrow> indexEntry list \<Rightarrow> fs \<times> error option" where
  "writeIndex s segPath idx =
     (let idxFile = indexFileName segPath;
          tmpFile = idxFile @ ''.tmp''
      in case os_Create s tmpFile of
           (s1, Some e) \<Rightarrow> (s1, Some e)
         | (s1, err) \<Rightarrow>
            (let s2 = fst (File_Write s1 tmpFile sidx_header);
                 (s3, loop_err) = writeIndex_loop s2 tmpFile idx
             in if err \<noteq> None then (os_Remove s3 tmpFile, err)
                else
                  (case os_Rename s3 tmpFile idxFile of
                     (s4, Some e) \<Rightarrow> (os_Remove s4 tmpFile, Some e)
                   | (s4, None) \<Rightarrow> (s4, None))))"

text \<open>The bytes \<open>writeIndex\<close> writes for one entry whose time has a binary encoding: the
  time in a slot of 16 bytes and the offset.\<close>

definition entry_record :: "indexEntry \<Rightarrow> byte list" where
  "entry_record e =
     (case MarshalBinary (Time e) of
        Inl err \<Rightarrow> []
      | Inr b \<Rightarrow> (if length b = 15 then b @ [0] else b) @ be64 (Offset e))"

text \<open>Two entries agree at the precision of the file: the same offset and the same
  seconds and nanoseconds (the zone is kept as an offset only).\<close>

definition same_record :: "indexEntry \<Rightarrow> indexEntry \<Rightarrow> bool" where
  "same_record a b =
     (Offset a = Offset b \<and> sec (Time a) = sec (Time b) \<and> nsec (Time a) = nsec (Time b))"

definition encodable :: "indexEntry \<Rightarrow> bool" where
  "encodable e = (case MarshalBinary (Time e) of Inl err \<Rightarrow> False | Inr b \<Rightarrow> True)"

section \<open>playback: the segment scanner\<close>

text \<open>
  The file of a segment, as the scanner sees it through the mp4 library: the result of
  \<open>segmentFMP4ReadInit\<close> (the tracks of the initialization metadata, or an error) and the
  tree of boxes. A box has its type, its offset in the file, the result of decoding its
  payload (\<open>None\<close> when \<open>UnmarshalAny\<close> fails) and its children. \<open>Broken\<close> stands at a
  place where the walker itself fails: \<open>ReadBoxInfo\<close> returns an error, a box is larger
  than what is left of its parent, bytes are left over at the end of a container, or the
  walker cannot decode an \<open>ftyp\<close> or \<open>keys\<close> box or seek in the file.
\<close>

record InitTrack =
  ID :: int64
  TimeScale :: "32 word"

datatype payload =
    Tfhd "32 word"     \<comment> \<open>\<open>TrackID\<close>\<close>
  | Tfdt int64         \<comment> \<open>\<open>BaseMediaDecodeTimeV1\<close>\<close>
  | Other

datatype box = Box string int64 "payload option" "box list" | Broken

record fmp4_file =
  init_tracks :: "error + InitTrack list"
  boxes :: "box list"

record Segment =
  Fpath :: string
  Start :: time_Time

text \<open>
  Modelled from the spec: \<open>findInitTrack\<close> is not among the sources. The spec has the
  active time scale "looked up by track identifier", and a track that is not found is
  the scan error.
\<close>

fun findInitTrack :: "InitTrack list \<Rightarrow> int64 \<Rightarrow> InitTrack option" where
  "findInitTrack [] trackID = None"
| "findInitTrack (t # ts) trackID = (if ID t = trackID then Some t else findInitTrack ts trackID)"

text \<open>The variables the handler of \<open>scanSegment\<close> captures and assigns.\<close>

record scan_state =
  moofOffset :: int64
  timeScale :: int64
  index_list :: "indexEntry list"     \<comment> \<open>the named result \<open>index\<close>\<close>

text \<open>
  \<open>dt := (offset64/timeScale)*time.Second + (offset64%timeScale)*time.Second/timeScale\<close>
  in 64-bit arithmetic (the caller has excluded a time scale of 0).
\<close>

definition decode_time :: "int64 \<Rightarrow> int64 \<Rightarrow> int64" where
  "decode_time offset64 ts =
     word_of_int (quo (sint offset64) (sint ts)) * 1000000000
       + word_of_int (quo (sint (word_of_int (rem (sint offset64) (sint ts)) * 1000000000 :: int64))
                          (sint ts))"

text \<open>
  The box walker (\<open>readBoxStructure\<close>, one level of the tree) with the handler of
  \<open>scanSegment\<close>. \<open>h.Expand()\<close> decodes the container and walks its children;
  \<open>h.ReadPayload()\<close> decodes the payload. An error of the handler ends the walk of every
  enclosing level. The result is the variables and the error; a division by a time scale
  of 0 panics.
\<close>

fun readBoxStructure ::
      "InitTrack list \<Rightarrow> time_Time \<Rightarrow> scan_state \<Rightarrow> box list \<Rightarrow> (scan_state \<times> error option) go"
  and handler ::
      "InitTrack list \<Rightarrow> time_Time \<Rightarrow> scan_state \<Rightarrow> box \<Rightarrow> (scan_state \<times> error option) go"
where
  "readBoxStructure tracks start st [] = Return (st, None)"
| "readBoxStructure tracks start st (b # bs) =
     (case handler tracks start st b of
        Panic \<Rightarrow> Panic
      | Return (st', Some e) \<Rightarrow> Return (st', Some e)
      | Return (st', None) \<Rightarrow> readBoxStructure tracks start st' bs)"
| "handler tracks start st Broken = Return (st, Some ErrBoxStructure)"
| "handler tracks start st (Box typ off pl kids) =
     (if typ = ''moof'' then
        (case pl of
           None \<Rightarrow> Return (st\<lparr>moofOffset := off\<rparr>, Some ErrDecode)
         | Some p \<Rightarrow> readBoxStructure tracks start (st\<lparr>moofOffset := off\<rparr>) kids)
      else if typ = ''traf'' then
        (case pl of
           None \<Rightarrow> Return (st, Some ErrDecode)
         | Some p \<Rightarrow> readBoxStructure tracks start st kids)
      else if typ = ''tfhd'' then
        (case pl of
           None \<Rightarrow> Return (st, Some ErrDecode)
         | Some (Tfhd trackID) \<Rightarrow>
            (case findInitTrack tracks (ucast trackID) of
               None \<Rightarrow> Return (st, Some (ErrInvalidTrackID trackID))
             | Some track \<Rightarrow> Return (st\<lparr>timeScale := ucast (TimeScale track)\<rparr>, None))
         | Some p \<Rightarrow> Panic)
      else if typ = ''tfdt'' then
        (case pl of
           None \<Rightarrow> Return (st, Some ErrDecode)
         | Some (Tfdt v) \<Rightarrow>
            (if timeScale st = 0 then Panic
             else Return (st\<lparr>index_list := index_list st
                               @ [\<lparr>Time = Add start (decode_time v (timeScale st)),
                                   Offset = moofOffset st\<rparr>]\<rparr>, None))
         | Some p \<Rightarrow> Panic)
      else Return (st, None))"

definition scanSegment_vars :: "Segment \<Rightarrow> scan_state" where
  "scanSegment_vars seg =
     \<lparr>moofOffset = 0, timeScale = 90000,
      index_list = [\<lparr>Time = Truncate_0 (Start seg), Offset = 0\<rparr>]\<rparr>"

text \<open>\<open>scanSegment\<close> returns its two named results, the entries and the error.\<close>

definition scanSegment ::
  "(string \<rightharpoonup> fmp4_file) \<Rightarrow> Segment \<Rightarrow> (indexEntry list \<times> error option) go" where
  "scanSegment disk seg =
     (case disk (Fpath seg) of
        None \<Rightarrow> Return ([], Some ErrNotExist)
      | Some f \<Rightarrow>
         (case init_tracks f of
            Inl e \<Rightarrow> Return ([], Some e)
          | Inr tracks \<Rightarrow>
             (case readBoxStructure tracks (Truncate_0 (Start seg)) (scanSegment_vars seg) (boxes f) of
                Panic \<Rightarrow> Panic
              | Return (st, err) \<Rightarrow> Return (index_list st, err))))"

text \<open>
  The body of the loop of \<open>IndexPath\<close> for a segment whose sidecar could not be read: the
  segment is scanned; on an error the loop goes on with the next segment; otherwise the
  entries are merged and written as the segment's sidecar (an error of that write is
  only logged).
\<close>

definition IndexPath_scan ::
  "(string \<rightharpoonup> fmp4_file) \<Rightarrow> fs \<Rightarrow> index \<Rightarrow> string \<Rightarrow> Segment \<Rightarrow> (index \<times> fs) go" where
  "IndexPath_scan disk s i pathName seg =
     (case scanSegment disk seg of
        Panic \<Rightarrow> Panic
      | Return (lst, Some e) \<Rightarrow> Return (i, s)
      | Return (lst, None) \<Rightarrow>
          Return (appendIndex i pathName lst, fst (writeIndex s (Fpath seg) lst)))"

text \<open>A segment of two fragments for the examples: the decode time of the first
  fragment is the parameter.\<close>

definition two_fragments :: "payload option \<Rightarrow> fmp4_file" where
  "two_fragments first_tfdt =
     \<lparr>init_tracks = Inr [\<lparr>ID = 1, TimeScale = 90000\<rparr>],
      boxes =
        [Box ''ftyp'' 0 (Some Other) [], Box ''moov'' 24 (Some Other) [],
         Box ''moof'' 100 (Some Other)
           [Box ''mfhd'' 108 (Some Other) [],
            Box ''traf'' 124 (Some Other)
              [Box ''tfhd'' 132 (Some (Tfhd 1)) [], Box ''tfdt'' 148 first_tfdt []]],
         Box ''mdat'' 168 (Some Other) [],
         Box ''moof'' 200 (Some Other)
           [Box ''mfhd'' 208 (Some Other) [],
            Box ''traf'' 224 (Some Other)
              [Box ''tfhd'' 232 (Some (Tfhd 1)) [], Box ''tfdt'' 248 (Some (Tfdt 180000)) []]],
         Box ''mdat'' 268 (Some Other) []]\<rparr>"

section \<open>playback: concurrent rebuilds\<close>

text \<open>
  Several calls of \<open>IndexPath\<close> for one path, run as threads that take turns; one turn
  is one of the steps below, in the order of the source. The places of a call:
  \<^item> \<open>AtCheck\<close>: before \<open>_, running := i.running[pathName]\<close> (the name is not a reserved
    one, segments were found, the format is fMP4);
  \<^item> \<open>AtLock r\<close>: before \<open>i.Lock()\<close>, with the value \<open>r\<close> read into \<open>running\<close>; the step
    is taken only when the lock is free;
  \<^item> \<open>Holding r\<close>: holding the lock. The step unlocks and returns when \<open>r\<close> holds; else it
    sets the mark, makes sure the path has a list, and unlocks;
  \<^item> \<open>AtPass\<close>: before the loop over the segments (the scan/load pass);
  \<^item> \<open>AtDefer\<close>: before the \<open>i.Lock()\<close> of the deferred function;
  \<^item> \<open>HoldingDefer\<close>: holding the lock; the step deletes the mark and unlocks;
  \<^item> \<open>Returned\<close>.
\<close>

datatype place = AtCheck | AtLock bool | Holding bool | AtPass | AtDefer | HoldingDefer | Returned

record world =
  shared :: index            \<comment> \<open>the index \<open>i\<close>\<close>
  locked :: bool             \<comment> \<open>the write lock of \<open>i\<close> is held\<close>
  places :: "place list"     \<comment> \<open>where each call is\<close>
  passes :: nat              \<comment> \<open>scan/load passes begun so far\<close>

definition IndexPath_enter :: "string \<Rightarrow> nat \<Rightarrow> bool \<Rightarrow> place" where
  "IndexPath_enter pathName n_segments is_fmp4 =
     (if pathName = ''all_others'' \<or> pathName = ''all'' then Returned
      else if n_segments = 0 then Returned
      else if is_fmp4 then AtCheck else Returned)"

definition IndexPath_step :: "string \<Rightarrow> world \<Rightarrow> nat \<Rightarrow> world" where
  "IndexPath_step pathName w t =
     (if length (places w) \<le> t then w
      else
        (case places w ! t of
           AtCheck \<Rightarrow> w\<lparr>places := (places w)[t := AtLock (pathName \<in> running (shared w))]\<rparr>
         | AtLock r \<Rightarrow>
             (if locked w then w else w\<lparr>locked := True, places := (places w)[t := Holding r]\<rparr>)
         | Holding r \<Rightarrow>
             (if r then w\<lparr>locked := False, places := (places w)[t := Returned]\<rparr>
              else
                w\<lparr>shared := (shared w)
                      \<lparr>running := insert pathName (running (shared w)),
                       entries := (case entries (shared w) pathName of
                                     None \<Rightarrow> (entries (shared w))(pathName \<mapsto> [])
                                   | Some l \<Rightarrow> entries (shared w))\<rparr>,
                  locked := False,
                  places := (places w)[t := AtPass]\<rparr>)
         | AtPass \<Rightarrow> w\<lparr>places := (places w)[t := AtDefer], passes := passes w + 1\<rparr>
         | AtDefer \<Rightarrow>
             (if locked w then w else w\<lparr>locked := True, places := (places w)[t := HoldingDefer]\<rparr>)
         | HoldingDefer \<Rightarrow>
             w\<lparr>shared := (shared w)\<lparr>running := running (shared w) - {pathName}\<rparr>,
               locked := False,
               places := (places w)[t := Returned]\<rparr>
         | Returned \<Rightarrow> w))"

text \<open>A schedule is the list of the threads that take the turns.\<close>

definition run_schedule :: "string \<Rightarrow> world \<Rightarrow> nat list \<Rightarrow> world" where
  "run_schedule pathName w schedule = foldl (IndexPath_step pathName) w schedule"

definition two_calls :: "string \<Rightarrow> world" where
  "two_calls pathName =
     \<lparr>shared = \<lparr>entries = Map.empty, running = {}\<rparr>, locked = False,
      places = [IndexPath_enter pathName 1 True, IndexPath_enter pathName 1 True],
      passes = 0\<rparr>"

subsection \<open>Values for the examples\<close>

definition at_sec :: "int64 \<Rightarrow> time_Time" where
  "at_sec s = \<lparr>sec = s, nsec = 0, zone = None\<rparr>"

definition entry_at :: "int64 \<Rightarrow> int64 \<Rightarrow> indexEntry" where
  "entry_at s off = \<lparr>Time = at_sec s, Offset = off\<rparr>"

definition index_of :: "string \<Rightarrow> indexEntry list \<Rightarrow> index" where
  "index_of pathName es = \<lparr>entries = [pathName \<mapsto> es], running = {}\<rparr>"

subsection \<open>Sequences of merges and live appends\<close>

text \<open>
  What changes a path's list in the claims about its order: the merge of one segment's
  entries by \<open>IndexPath\<close> (\<open>appendIndex\<close>) and the append of one entry by \<open>Update\<close>.
\<close>

datatype index_op = Merge "indexEntry list" | Live time_Time int64

fun apply_op :: "string \<Rightarrow> index \<Rightarrow> index_op \<Rightarrow> index" where
  "apply_op pathName i (Merge lst) = appendIndex i pathName lst"
| "apply_op pathName i (Live t off) = Update i pathName t off"

definition run_ops :: "index \<Rightarrow> string \<Rightarrow> index_op list \<Rightarrow> index" where
  "run_ops i pathName ops = foldl (apply_op pathName) i ops"

text \<open>A list is in time order when no entry is after a later one.\<close>

definition by_time :: "indexEntry \<Rightarrow> indexEntry \<Rightarrow> bool" where
  "by_time a b = (\<not> After (Time a) (Time b))"

definition sorted_by_time :: "index \<Rightarrow> string \<Rightarrow> bool" where
  "sorted_by_time i pathName =
     (case entries i pathName of None \<Rightarrow> True | Some es \<Rightarrow> sorted_wrt by_time es)"

text \<open>The live appends arrive in time order: each appended time is not before the time
  of the last entry the list holds when the append is made.\<close>

fun in_time_order :: "index \<Rightarrow> string \<Rightarrow> index_op list \<Rightarrow> bool" where
  "in_time_order i pathName [] = True"
| "in_time_order i pathName (Merge lst # ops) =
     in_time_order (appendIndex i pathName lst) pathName ops"
| "in_time_order i pathName (Live t off # ops) =
     ((case entries i pathName of
         None \<Rightarrow> True
       | Some es \<Rightarrow> es = [] \<or> \<not> Before (Truncate_0 t) (Time (last es)))
      \<and> in_time_order (Update i pathName t off) pathName ops)"

section \<open>Verified properties\<close>

subsection \<open>The Range Response Writer\<close>

text \<open>
  C10. \<open>Write\<close> never returns \<open>ErrFatal\<close>, whatever the writer's state and the
  buffer: in the branch that skips part of a buffer the number of bytes to skip is
  \<open>offset - skipped\<close>, and adding it to \<open>skipped\<close> makes \<open>skipped\<close> equal \<open>offset\<close>
  exactly (also when the 64-bit arithmetic wraps), so the test \<open>skipped > offset\<close> that
  guards the error fails.
\<close>

theorem Write_never_ErrFatal:
  "Write w p spare = Return (w', n, e) \<Longrightarrow>
     e \<noteq> Some ErrFatal \<and> (skips_part w p \<longrightarrow> skipped w' = offset w)"
  by (auto simp: Write_def Let_def Writer_Write_def skips_part_def writeHeaders_def
      split: if_splits go.splits prod.splits sum.splits)

theorem Write_never_ErrFatal_witness:
  "skips_part
     \<lparr>ctx = new_Context, length_w = 0, skipped = 60, sent = 0, offset = 100, offset2 = 199,
      pass1 = False, written = True\<rparr> (replicate 40 5 @ replicate 10 6)
   \<and> Write
       \<lparr>ctx = new_Context, length_w = 0, skipped = 60, sent = 0, offset = 100, offset2 = 199,
        pass1 = False, written = True\<rparr> (replicate 40 5 @ replicate 10 6) []
     = Return
        (\<lparr>ctx = new_Context\<lparr>body := replicate 10 6\<rparr>, length_w = 0,
          skipped = 100, sent = 0, offset = 100, offset2 = 199, pass1 = False, written = True\<rparr>,
         10, None)"
  using Write_never_ErrFatal
    [of "\<lparr>ctx = new_Context, length_w = 0, skipped = 60, sent = 0, offset = 100, offset2 = 199,
          pass1 = False, written = True\<rparr>"
        "replicate 40 5 @ replicate 10 6" "[]"]
  by code_simp

text \<open>
  C1. A request with \<open>Range: bytes=100-199\<close> for a body of 300 bytes that the muxer
  writes as two buffers of 150 bytes. The response announces
  \<open>Content-Range: bytes 100-199/300\<close>, and the client receives 200 bytes: the tail of
  the first buffer (which \<open>sent\<close> does not count) and the whole second buffer (the clamp
  compares the count \<open>sent\<close> with the position \<open>offset2\<close>). Bytes \<open>[100,200)\<close> of the
  unranged response are the first 100 of them; no end-of-stream is signalled.
\<close>

theorem range_100_199_delivers_200_bytes:
  "delivered ''bytes=100-199'' [(replicate 150 1, []), (replicate 150 2, [])]
     = replicate 50 1 @ replicate 150 2
   \<and> take 100 (drop 100 (delivered '''' [(replicate 150 1, []), (replicate 150 2, [])]))
     = replicate 50 1 @ replicate 50 2
   \<and> map_of (headers (case onGet ''bytes=100-199''
                               [(replicate 150 1, []), (replicate 150 2, [])] new_Context of
                          Return c \<Rightarrow> c | Panic \<Rightarrow> new_Context)) ''Content-Range''
     = Some ''bytes 100-199/300''"
  by code_simp

subsection \<open>The index: lookup\<close>

lemma FindBestOffset_loop_eq:
  "n \<le> length es \<Longrightarrow>
   FindBestOffset_loop es start n =
     (let k = n + length (takeWhile (\<lambda>e. \<not> After (Time e) start) (drop n es))
      in if k < length es \<and> 0 < k \<and> Offset (es ! k) \<noteq> 0 then Offset (es ! (k - 1)) else 0)"
proof (induction es start n rule: FindBestOffset_loop.induct)
  case (1 es start n)
  show ?case
  proof (cases "n < length es")
    case False
    then show ?thesis by (subst FindBestOffset_loop.simps) simp
  next
    case True
    then have d: "drop n es = es ! n # drop (Suc n) es"
      by (simp add: Cons_nth_drop_Suc)
    show ?thesis
    proof (cases "After (Time (es ! n)) start")
      case True
      with \<open>n < length es\<close> d show ?thesis
        by (simp add: FindBestOffset_loop.simps [of es start n])
    next
      case False
      with \<open>n < length es\<close> have "FindBestOffset_loop es start n = FindBestOffset_loop es start (n + 1)"
        by (simp add: FindBestOffset_loop.simps [of es start n])
      also have "\<dots> = (let k = (n + 1) + length (takeWhile (\<lambda>e. \<not> After (Time e) start) (drop (n + 1) es))
      in if k < length es \<and> 0 < k \<and> Offset (es ! k) \<noteq> 0 then Offset (es ! (k - 1)) else 0)"
        using "1.IH" [OF \<open>n < length es\<close> False] \<open>n < length es\<close> by simp
      finally show ?thesis using False d by (simp add: Let_def)
    qed
  qed
qed

text \<open>
  C3 (as amended). \<open>FindBestOffset\<close> looks for the first entry strictly after
  \<open>start\<close> (index \<open>k\<close>). When it exists, is not the first entry and its own offset
  is not 0, the result is the offset of the entry before it (0 when that entry is a
  sentinel). In every other case, a path without a list included, the result is 0.
\<close>

theorem FindBestOffset_found_entry:
  "FindBestOffset i pathName start =
     (case entries i pathName of
        None \<Rightarrow> 0
      | Some es \<Rightarrow>
         (let k = length (takeWhile (\<lambda>e. \<not> After (Time e) start) es)
          in if k < length es \<and> 0 < k \<and> Offset (es ! k) \<noteq> 0 then Offset (es ! (k - 1)) else 0))"
  by (simp add: FindBestOffset_def FindBestOffset_loop_eq Truncate_0_def split: option.splits)


theorem FindBestOffset_found_entry_witness:
  "FindBestOffset (index_of ''cam'' [entry_at 0 0, entry_at 2 100, entry_at 4 200, entry_at 12 50])
     ''cam'' (at_sec 3) = 100"
  using FindBestOffset_found_entry
    [of "index_of ''cam'' [entry_at 0 0, entry_at 2 100, entry_at 4 200, entry_at 12 50]"
        "''cam''" "at_sec 3"]
  by code_simp

text \<open>
  The claim as first stated fails: the list holds a segment with one fragment at offset
  100 and the next segment's sentinel at second 10. The first entry after second 5 is
  that sentinel, the entry before it has the offset 100, and the result is 0.
\<close>

theorem FindBestOffset_sentinel_counterexample:
  "FindBestOffset (index_of ''cam'' [entry_at 0 0, entry_at 2 100, entry_at 10 0, entry_at 12 50])
     ''cam'' (at_sec 5) = 0
   \<and> \<not> After (Time (entry_at 0 0)) (at_sec 5)
   \<and> \<not> After (Time (entry_at 2 100)) (at_sec 5)
   \<and> After (Time (entry_at 10 0)) (at_sec 5)
   \<and> Offset (entry_at 2 100) = 100"
  by code_simp

subsection \<open>The index: pruning\<close>

lemma PruneIndex_n0_eq:
  "n \<le> length idx \<Longrightarrow>
   PruneIndex_n0 idx start n = n + length (takeWhile (\<lambda>e. Before (Time e) start) (drop n idx))"
proof (induction idx start n rule: PruneIndex_n0.induct)
  case (1 idx start n0)
  show ?case
  proof (cases "n0 < length idx")
    case False
    with "1.prems" show ?thesis by (subst PruneIndex_n0.simps) simp
  next
    case True
    then have d: "drop n0 idx = idx ! n0 # drop (Suc n0) idx"
      by (simp add: Cons_nth_drop_Suc)
    show ?thesis
    proof (cases "Before (Time (idx ! n0)) start")
      case False
      with True d show ?thesis by (simp add: PruneIndex_n0.simps [of idx start n0])
    next
      case b: True
      with True "1.IH" d show ?thesis by (simp add: PruneIndex_n0.simps [of idx start n0])
    qed
  qed
qed

lemma PruneIndex_n1_eq:
  "n \<le> length idx \<Longrightarrow>
   PruneIndex_n1 idx n = n + length (takeWhile (\<lambda>e. Offset e \<noteq> 0) (drop n idx))"
proof (induction idx n rule: PruneIndex_n1.induct)
  case (1 idx n1)
  show ?case
  proof (cases "n1 < length idx")
    case False
    with "1.prems" show ?thesis by (subst PruneIndex_n1.simps) simp
  next
    case True
    then have d: "drop n1 idx = idx ! n1 # drop (Suc n1) idx"
      by (simp add: Cons_nth_drop_Suc)
    show ?thesis
    proof (cases "Offset (idx ! n1) = 0")
      case True
      with \<open>n1 < length idx\<close> d show ?thesis by (simp add: PruneIndex_n1.simps [of idx n1])
    next
      case False
      with True "1.IH" d show ?thesis by (simp add: PruneIndex_n1.simps [of idx n1])
    qed
  qed
qed

lemma n0_less:
  assumes "idx \<noteq> []" "\<not> Before (Time (last idx)) start"
  shows "length (takeWhile (\<lambda>e. Before (Time e) start) idx) < length idx"
proof -
  have "last idx \<in> set idx" using assms(1) by simp
  then have "\<not> (\<forall>e\<in>set idx. Before (Time e) start)" using assms(2) by blast
  then have "takeWhile (\<lambda>e. Before (Time e) start) idx \<noteq> idx"
    by (metis takeWhile_eq_all_conv)
  moreover have "length (takeWhile (\<lambda>e. Before (Time e) start) idx) \<le> length idx"
    by (rule length_takeWhile_le)
  ultimately show ?thesis
    by (metis le_neq_implies_less takeWhile_eq_take take_all order_refl)
qed

lemma PruneIndex_eq:
  "PruneIndex i pathName start =
     (case entries i pathName of
        None \<Rightarrow> i
      | Some idx \<Rightarrow>
         (if idx = [] \<or> Before (Time (last idx)) start then i
          else
            (let n0 = length (takeWhile (\<lambda>e. Before (Time e) start) idx);
                 n1 = Suc n0 + length (takeWhile (\<lambda>e. Offset e \<noteq> 0) (drop (Suc n0) idx))
             in i\<lparr>entries := (entries i)(pathName \<mapsto> take n0 idx @ drop n1 idx)\<rparr>)))"
proof (cases "entries i pathName")
  case None
  then show ?thesis by (simp add: PruneIndex_def)
next
  case (Some idx)
  show ?thesis
  proof (cases "idx = [] \<or> Before (Time (last idx)) start")
    case True
    with Some show ?thesis by (auto simp: PruneIndex_def last_conv_nth)
  next
    case False
    then have ne: "idx \<noteq> []" and nb: "\<not> Before (Time (last idx)) start" by auto
    from n0_less [OF ne nb] have "Suc (length (takeWhile (\<lambda>e. Before (Time e) start) idx)) \<le> length idx"
      by simp
    with Some False ne show ?thesis
      by (simp add: PruneIndex_def last_conv_nth PruneIndex_n0_eq PruneIndex_n1_eq Let_def)
  qed
qed

lemma sorted_last_greatest:
  assumes "sorted_wrt (\<lambda>a b. \<not> After (Time a) (Time b)) idx" "e \<in> set idx"
  shows "\<not> After (Time e) (Time (last idx))"
proof -
  from assms(2) have ne: "idx \<noteq> []" by auto
  then have split: "idx = butlast idx @ [last idx]" by simp
  show ?thesis
  proof (cases "e \<in> set (butlast idx)")
    case True
    from assms(1) split have "sorted_wrt (\<lambda>a b. \<not> After (Time a) (Time b)) (butlast idx @ [last idx])"
      by simp
    with True show ?thesis by (auto simp: sorted_wrt_append)
  next
    case False
    with assms(2) split have "e = last idx"
      by (metis Un_iff empty_iff empty_set set_ConsD set_append)
    then show ?thesis by (simp add: After_def)
  qed
qed

text \<open>
  C8 (as amended). \<open>PruneIndex\<close> changes nothing exactly when the path has no list, the
  list is empty, or the last entry is before \<open>start\<close> (in a list sorted by time: every
  entry is before \<open>start\<close>). Otherwise, with \<open>n0\<close> the index of the first entry not before
  \<open>start\<close> and \<open>n1\<close> the index of the first entry with offset 0 after \<open>n0\<close> (the length of
  the list when there is none), the path's list becomes the entries before \<open>n0\<close> followed
  by the entries from \<open>n1\<close> on; nothing else changes.
\<close>

theorem PruneIndex_removes_segment:
  "PruneIndex i pathName start =
     (case entries i pathName of
        None \<Rightarrow> i
      | Some idx \<Rightarrow>
         (if idx = [] \<or> Before (Time (last idx)) start then i
          else
            (let n0 = length (takeWhile (\<lambda>e. Before (Time e) start) idx);
                 n1 = Suc n0 + length (takeWhile (\<lambda>e. Offset e \<noteq> 0) (drop (Suc n0) idx))
             in i\<lparr>entries := (entries i)(pathName \<mapsto> take n0 idx @ drop n1 idx)\<rparr>)))
   \<and> (PruneIndex i pathName start = i \<longleftrightarrow>
        (case entries i pathName of
           None \<Rightarrow> True
         | Some idx \<Rightarrow> idx = [] \<or> Before (Time (last idx)) start))
   \<and> (\<forall>idx. sorted_wrt (\<lambda>a b. \<not> After (Time a) (Time b)) idx \<and> idx \<noteq> [] \<longrightarrow>
        (Before (Time (last idx)) start \<longleftrightarrow> (\<forall>e\<in>set idx. Before (Time e) start)))"
proof (intro conjI allI impI)
  show "PruneIndex i pathName start =
     (case entries i pathName of
        None \<Rightarrow> i
      | Some idx \<Rightarrow>
         (if idx = [] \<or> Before (Time (last idx)) start then i
          else
            (let n0 = length (takeWhile (\<lambda>e. Before (Time e) start) idx);
                 n1 = Suc n0 + length (takeWhile (\<lambda>e. Offset e \<noteq> 0) (drop (Suc n0) idx))
             in i\<lparr>entries := (entries i)(pathName \<mapsto> take n0 idx @ drop n1 idx)\<rparr>)))"
    by (rule PruneIndex_eq)
next
  show "PruneIndex i pathName start = i \<longleftrightarrow>
        (case entries i pathName of
           None \<Rightarrow> True
         | Some idx \<Rightarrow> idx = [] \<or> Before (Time (last idx)) start)"
  proof (cases "entries i pathName")
    case None
    then show ?thesis by (simp add: PruneIndex_eq)
  next
    case (Some idx)
    show ?thesis
    proof (cases "idx = [] \<or> Before (Time (last idx)) start")
      case True
      with Some show ?thesis by (auto simp: PruneIndex_eq)
    next
      case False
      then have ne: "idx \<noteq> []" and nb: "\<not> Before (Time (last idx)) start" by auto
      define n0 where "n0 = length (takeWhile (\<lambda>e. Before (Time e) start) idx)"
      define n1 where "n1 = Suc n0 + length (takeWhile (\<lambda>e. Offset e \<noteq> 0) (drop (Suc n0) idx))"
      have lt: "n0 < length idx" unfolding n0_def by (rule n0_less [OF ne nb])
      have "length (takeWhile (\<lambda>e. Offset e \<noteq> 0) (drop (Suc n0) idx)) \<le> length (drop (Suc n0) idx)"
        by (rule length_takeWhile_le)
      with lt have n1: "n0 < n1" "n1 \<le> length idx" unfolding n1_def by auto
      have res: "PruneIndex i pathName start
                   = i\<lparr>entries := (entries i)(pathName \<mapsto> take n0 idx @ drop n1 idx)\<rparr>"
        using Some False by (simp add: PruneIndex_eq n0_def n1_def Let_def)
      have "length (take n0 idx @ drop n1 idx) < length idx" using n1 lt by simp
      then have "take n0 idx @ drop n1 idx \<noteq> idx" by (metis less_irrefl)
      then have "entries (PruneIndex i pathName start) pathName \<noteq> entries i pathName"
        using Some res by simp
      then have "PruneIndex i pathName start \<noteq> i" by metis
      with Some False show ?thesis by simp
    qed
  qed
next
  fix idx
  assume a: "sorted_wrt (\<lambda>a b. \<not> After (Time a) (Time b)) idx \<and> idx \<noteq> []"
  show "Before (Time (last idx)) start \<longleftrightarrow> (\<forall>e\<in>set idx. Before (Time e) start)"
  proof
    assume b: "Before (Time (last idx)) start"
    show "\<forall>e\<in>set idx. Before (Time e) start"
    proof
      fix e assume "e \<in> set idx"
      with a have "\<not> After (Time e) (Time (last idx))" by (simp add: sorted_last_greatest)
      with b show "Before (Time e) start" by (simp add: After_def Before_def)
    qed
  next
    assume "\<forall>e\<in>set idx. Before (Time e) start"
    moreover from a have "last idx \<in> set idx" by simp
    ultimately show "Before (Time (last idx)) start" by blast
  qed
qed

theorem PruneIndex_removes_segment_witness:
  "entries (PruneIndex (index_of ''cam'' [entry_at 1 0, entry_at 2 5, entry_at 10 0, entry_at 12 7,
                                          entry_at 20 0, entry_at 22 9]) ''cam'' (at_sec 10)) ''cam''
     = Some [entry_at 1 0, entry_at 2 5, entry_at 20 0, entry_at 22 9]
   \<and> PruneIndex (index_of ''cam'' [entry_at 1 0, entry_at 2 5, entry_at 10 0, entry_at 12 7,
                                   entry_at 20 0, entry_at 22 9]) ''cam'' (at_sec 10)
       \<noteq> index_of ''cam'' [entry_at 1 0, entry_at 2 5, entry_at 10 0, entry_at 12 7,
                            entry_at 20 0, entry_at 22 9]
   \<and> PruneIndex (index_of ''cam'' [entry_at 1 0, entry_at 2 5]) ''cam'' (at_sec 10)
       = index_of ''cam'' [entry_at 1 0, entry_at 2 5]
   \<and> sorted_wrt (\<lambda>a b. \<not> After (Time a) (Time b)) [entry_at 1 0, entry_at 2 5]
   \<and> Before (Time (entry_at 1 0)) (at_sec 10) \<and> Before (Time (entry_at 2 5)) (at_sec 10)"
proof -
  let ?long = "[entry_at 1 0, entry_at 2 5, entry_at 10 0, entry_at 12 7, entry_at 20 0, entry_at 22 9]"
  let ?short = "[entry_at 1 0, entry_at 2 5]"
  have ev: "entries (PruneIndex (index_of ''cam'' ?long) ''cam'' (at_sec 10)) ''cam''
              = Some [entry_at 1 0, entry_at 2 5, entry_at 20 0, entry_at 22 9]"
    "entries (index_of ''cam'' ?long) ''cam'' = Some ?long"
    "\<not> Before (Time (last ?long)) (at_sec 10)"
    "entries (index_of ''cam'' ?short) ''cam'' = Some ?short"
    "sorted_wrt (\<lambda>a b. \<not> After (Time a) (Time b)) ?short"
    by code_simp+
  have changed: "PruneIndex (index_of ''cam'' ?long) ''cam'' (at_sec 10) \<noteq> index_of ''cam'' ?long"
    using PruneIndex_removes_segment
            [of "index_of ''cam'' ?long" "''cam''" "at_sec 10", THEN conjunct2, THEN conjunct1] ev(2,3)
    by simp
  from PruneIndex_removes_segment
         [of "index_of ''cam'' ?short" "''cam''" "at_sec 10", THEN conjunct2, THEN conjunct2]
  have all: "Before (Time (last ?short)) (at_sec 10) \<longleftrightarrow> (\<forall>e\<in>set ?short. Before (Time e) (at_sec 10))"
    using ev(5) by blast
  have "Before (Time (last ?short)) (at_sec 10)" by code_simp
  with all have before: "Before (Time (entry_at 1 0)) (at_sec 10)" "Before (Time (entry_at 2 5)) (at_sec 10)"
    by simp_all
  then have same: "PruneIndex (index_of ''cam'' ?short) ''cam'' (at_sec 10) = index_of ''cam'' ?short"
    using PruneIndex_removes_segment
            [of "index_of ''cam'' ?short" "''cam''" "at_sec 10", THEN conjunct2, THEN conjunct1] ev(4)
    by simp
  from ev(1,5) changed same before show ?thesis by simp
qed

text \<open>
  The claim as first stated fails: every entry of the list is after \<open>start\<close>, and the
  call removes the entries \<open>[0, 2)\<close>, the whole list.
\<close>

theorem PruneIndex_at_or_after_counterexample:
  "\<not> Before (Time (entry_at 10 0)) (at_sec 5)
   \<and> \<not> Before (Time (entry_at 12 5)) (at_sec 5)
   \<and> entries (index_of ''cam'' [entry_at 10 0, entry_at 12 5]) ''cam''
       = Some [entry_at 10 0, entry_at 12 5]
   \<and> entries (PruneIndex (index_of ''cam'' [entry_at 10 0, entry_at 12 5]) ''cam'' (at_sec 5)) ''cam''
       = Some []"
  by code_simp

subsection \<open>The index: order of a path's list\<close>

lemma sint_clamp:
  "- (2 ^ 63) \<le> x \<Longrightarrow> x \<le> 2 ^ 63 - 1 \<Longrightarrow> sint (word_of_int x :: int64) = x"
  by (simp add: sint_sbintrunc' signed_take_bit_int_eq_self)

lemma Sub_neg: "Sub t u <s 0 \<longleftrightarrow> instant t < instant u"
  by (auto simp: Sub_def Let_def word_sless_alt sint_clamp)

lemma indexCmp_neg: "indexCmp a b <s 0 \<longleftrightarrow> \<not> by_time b a"
  by (simp add: indexCmp_def Sub_neg by_time_def After_def)

lemma by_time_trans: "by_time a b \<Longrightarrow> by_time b c \<Longrightarrow> by_time a c"
  by (simp add: by_time_def After_def)

lemma by_time_total: "by_time a b \<or> by_time b a"
  by (auto simp: by_time_def After_def)

lemma set_insert_stable: "set (insert_stable cmp x ys) = insert x (set ys)"
  by (induction ys) auto

lemma mset_insert_stable: "mset (insert_stable cmp x ys) = add_mset x (mset ys)"
  by (induction ys) auto

lemma sorted_insert_stable:
  "sorted_wrt by_time ys \<Longrightarrow> sorted_wrt by_time (insert_stable indexCmp x ys)"
proof (induction ys)
  case Nil
  then show ?case by simp
next
  case (Cons y ys)
  show ?case
  proof (cases "indexCmp x y <s 0")
    case True
    then have xy: "by_time x y" using by_time_total [of x y] by (simp add: indexCmp_neg)
    moreover from Cons.prems have "\<forall>z\<in>set ys. by_time y z" by simp
    ultimately have "\<forall>z\<in>set ys. by_time x z" by (blast intro: by_time_trans)
    with True xy Cons.prems show ?thesis by simp
  next
    case False
    then have "by_time y x" by (simp add: indexCmp_neg)
    with False Cons show ?thesis by (simp add: set_insert_stable)
  qed
qed

lemma sorted_foldl_insert:
  "sorted_wrt by_time acc \<Longrightarrow>
   sorted_wrt by_time (foldl (\<lambda>sorted x. insert_stable indexCmp x sorted) acc xs)"
  by (induction xs arbitrary: acc) (simp_all add: sorted_insert_stable)

lemma mset_foldl_insert:
  "mset (foldl (\<lambda>sorted x. insert_stable cmp x sorted) acc xs) = mset acc + mset xs"
  by (induction xs arbitrary: acc) (simp_all add: mset_insert_stable)

lemma sorted_SortStableFunc: "sorted_wrt by_time (SortStableFunc xs indexCmp)"
  by (simp add: SortStableFunc_def sorted_foldl_insert)

lemma mset_SortStableFunc: "mset (SortStableFunc xs cmp) = mset xs"
  by (simp add: SortStableFunc_def mset_foldl_insert)

text \<open>Stability: the entries of one instant keep their order.\<close>

lemma filter_insert_stable:
  "sorted_wrt by_time ys \<Longrightarrow>
   filter (\<lambda>e. instant (Time e) = k) (insert_stable indexCmp x ys)
     = filter (\<lambda>e. instant (Time e) = k) ys @ (if instant (Time x) = k then [x] else [])"
proof (induction ys)
  case Nil
  then show ?case by simp
next
  case (Cons y ys)
  show ?case
  proof (cases "indexCmp x y <s 0")
    case True
    then have lt: "instant (Time x) < instant (Time y)"
      by (simp add: indexCmp_def Sub_neg)
    from Cons.prems have "\<forall>z\<in>set ys. instant (Time y) \<le> instant (Time z)"
      by (auto simp: by_time_def After_def)
    with lt have "\<forall>z\<in>set (y # ys). instant (Time z) \<noteq> instant (Time x)" by auto
    then have "instant (Time x) = k \<Longrightarrow> filter (\<lambda>e. instant (Time e) = k) (y # ys) = []"
      by (auto simp: filter_empty_conv)
    with True show ?thesis by auto
  next
    case False
    with Cons show ?thesis by simp
  qed
qed

lemma filter_foldl_insert:
  "sorted_wrt by_time acc \<Longrightarrow>
   filter (\<lambda>e. instant (Time e) = k) (foldl (\<lambda>sorted x. insert_stable indexCmp x sorted) acc xs)
     = filter (\<lambda>e. instant (Time e) = k) acc @ filter (\<lambda>e. instant (Time e) = k) xs"
proof (induction xs arbitrary: acc)
  case Nil
  then show ?case by simp
next
  case (Cons x xs)
  from Cons.prems have "sorted_wrt by_time (insert_stable indexCmp x acc)"
    by (rule sorted_insert_stable)
  from Cons.IH [OF this] Cons.prems show ?case
    by (simp add: filter_insert_stable)
qed

lemma stable_SortStableFunc:
  "filter (\<lambda>e. instant (Time e) = k) (SortStableFunc xs indexCmp)
     = filter (\<lambda>e. instant (Time e) = k) xs"
  using filter_foldl_insert [of "[]" k xs] by (simp add: SortStableFunc_def)

lemma sorted_appendIndex: "sorted_by_time (appendIndex i p lst) p"
  by (simp add: appendIndex_def sorted_by_time_def Let_def sorted_SortStableFunc)

lemma sorted_snoc:
  "sorted_wrt by_time es \<Longrightarrow> es = [] \<or> by_time (last es) x \<Longrightarrow> sorted_wrt by_time (es @ [x])"
proof (cases "es = []")
  case True
  then show ?thesis by simp
next
  case False
  assume s: "sorted_wrt by_time es" and "es = [] \<or> by_time (last es) x"
  with False have lx: "by_time (last es) x" by simp
  have "\<forall>e\<in>set es. by_time e x"
  proof
    fix e assume e: "e \<in> set es"
    have "es = butlast es @ [last es]" using False by simp
    with s have "sorted_wrt by_time (butlast es @ [last es])" by simp
    then have "\<forall>a\<in>set (butlast es). by_time a (last es)" by (simp add: sorted_wrt_append)
    moreover from e False have "e \<in> set (butlast es) \<or> e = last es"
      by (metis Un_iff append_butlast_last_id empty_iff empty_set set_ConsD set_append)
    ultimately have "by_time e (last es)" using by_time_total [of e e] by auto
    then show "by_time e x" using lx by (rule by_time_trans)
  qed
  with s show ?thesis by (simp add: sorted_wrt_append)
qed

lemma sorted_Update:
  assumes "sorted_by_time i p"
    and "case entries i p of None \<Rightarrow> True | Some es \<Rightarrow> es = [] \<or> \<not> Before (Truncate_0 t) (Time (last es))"
  shows "sorted_by_time (Update i p t off) p"
proof (cases "entries i p")
  case None
  then show ?thesis by (simp add: Update_def sorted_by_time_def)
next
  case (Some es)
  with assms have s: "sorted_wrt by_time es"
    and l: "es = [] \<or> by_time (last es) \<lparr>Time = Truncate_0 t, Offset = off\<rparr>"
    by (auto simp: sorted_by_time_def by_time_def After_def Before_def)
  from sorted_snoc [OF s l] Some show ?thesis
    by (simp add: Update_def sorted_by_time_def)
qed

lemma sorted_run_ops:
  "sorted_by_time i p \<Longrightarrow> in_time_order i p ops \<Longrightarrow> sorted_by_time (run_ops i p (take n ops)) p"
proof (induction ops arbitrary: i n)
  case Nil
  then show ?case by (simp add: run_ops_def)
next
  case (Cons a ops)
  show ?case
  proof (cases n)
    case 0
    with Cons.prems show ?thesis by (simp add: run_ops_def)
  next
    case (Suc m)
    show ?thesis
    proof (cases a)
      case (Merge lst)
      with Cons.prems have "in_time_order (appendIndex i p lst) p ops" by simp
      from Cons.IH [OF sorted_appendIndex this, of m] Suc Merge show ?thesis
        by (simp add: run_ops_def)
    next
      case (Live t off)
      with Cons.prems have o: "in_time_order (Update i p t off) p ops"
        and c: "case entries i p of None \<Rightarrow> True | Some es \<Rightarrow> es = [] \<or> \<not> Before (Truncate_0 t) (Time (last es))"
        by simp_all
      from Cons.IH [OF sorted_Update [OF Cons.prems(1) c] o, of m] Suc Live show ?thesis
        by (simp add: run_ops_def)
    qed
  qed
qed

text \<open>
  C9. Start from a list in time order and run any sequence of merges (\<open>appendIndex\<close>,
  once per segment of a rebuild) and live appends (\<open>Update\<close>) in which the live appends
  arrive in time order. After every prefix of the sequence the path's list is in time
  order. The merge itself needs no assumption: whatever list \<open>j\<close> holds for the path, the
  list after the merge is sorted by time, holds the old entries and the new ones, and
  keeps the entries of one instant in the order they had (old before new).
\<close>

theorem entries_sorted_after_merges_and_appends:
  assumes "sorted_by_time i pathName" and "in_time_order i pathName ops"
  shows "sorted_by_time (run_ops i pathName (take n ops)) pathName
     \<and> (\<exists>es. entries (appendIndex j pathName lst) pathName = Some es
           \<and> sorted_wrt by_time es
           \<and> mset es = mset ((case entries j pathName of None \<Rightarrow> [] | Some l \<Rightarrow> l) @ lst)
           \<and> (\<forall>k. filter (\<lambda>e. instant (Time e) = k) es
                   = filter (\<lambda>e. instant (Time e) = k)
                       ((case entries j pathName of None \<Rightarrow> [] | Some l \<Rightarrow> l) @ lst)))"
proof
  show "sorted_by_time (run_ops i pathName (take n ops)) pathName"
    using assms by (rule sorted_run_ops)
next
  let ?cur = "(case entries j pathName of None \<Rightarrow> [] | Some l \<Rightarrow> l) @ lst"
  have "entries (appendIndex j pathName lst) pathName = Some (SortStableFunc ?cur indexCmp)"
    by (simp add: appendIndex_def Let_def)
  moreover have "sorted_wrt by_time (SortStableFunc ?cur indexCmp)"
    by (rule sorted_SortStableFunc)
  moreover have "mset (SortStableFunc ?cur indexCmp) = mset ?cur"
    by (rule mset_SortStableFunc)
  moreover have "\<forall>k. filter (\<lambda>e. instant (Time e) = k) (SortStableFunc ?cur indexCmp)
                      = filter (\<lambda>e. instant (Time e) = k) ?cur"
    by (simp add: stable_SortStableFunc)
  ultimately show "\<exists>es. entries (appendIndex j pathName lst) pathName = Some es
           \<and> sorted_wrt by_time es \<and> mset es = mset ?cur
           \<and> (\<forall>k. filter (\<lambda>e. instant (Time e) = k) es = filter (\<lambda>e. instant (Time e) = k) ?cur)"
    by blast
qed

theorem entries_sorted_after_merges_and_appends_witness:
  "sorted_by_time (index_of ''cam'' []) ''cam''
   \<and> in_time_order (index_of ''cam'' []) ''cam''
        [Live (at_sec 1) 0, Live (at_sec 2) 100,
         Merge [entry_at 2 100, entry_at 1 0, entry_at 0 0], Live (at_sec 3) 200]
   \<and> sorted_by_time
        (run_ops (index_of ''cam'' []) ''cam''
           (take 4 [Live (at_sec 1) 0, Live (at_sec 2) 100,
                    Merge [entry_at 2 100, entry_at 1 0, entry_at 0 0], Live (at_sec 3) 200]))
        ''cam''
   \<and> entries
        (run_ops (index_of ''cam'' []) ''cam''
           (take 4 [Live (at_sec 1) 0, Live (at_sec 2) 100,
                    Merge [entry_at 2 100, entry_at 1 0, entry_at 0 0], Live (at_sec 3) 200]))
        ''cam''
       = Some [entry_at 0 0, entry_at 1 0, entry_at 1 0, entry_at 2 100, entry_at 2 100,
               entry_at 3 200]"
proof -
  let ?ops = "[Live (at_sec 1) 0, Live (at_sec 2) 100,
               Merge [entry_at 2 100, entry_at 1 0, entry_at 0 0], Live (at_sec 3) 200]"
  have s: "sorted_by_time (index_of ''cam'' []) ''cam''" by code_simp
  have o: "in_time_order (index_of ''cam'' []) ''cam'' ?ops" by code_simp
  have r: "entries (run_ops (index_of ''cam'' []) ''cam'' (take 4 ?ops)) ''cam''
             = Some [entry_at 0 0, entry_at 1 0, entry_at 1 0, entry_at 2 100, entry_at 2 100,
                     entry_at 3 200]"
    by code_simp
  from entries_sorted_after_merges_and_appends [OF s o, of 4, THEN conjunct1] s o r
  show ?thesis by blast
qed

subsection \<open>The sidecar file\<close>

lemma bit_byte_at:
  fixes w :: "'a::len word"
  shows "bit (push_bit k (ucast (ucast (drop_bit k w) :: byte)) :: 'a word) n
           \<longleftrightarrow> k \<le> n \<and> n < k + 8 \<and> bit w n"
  by (auto simp: bit_simps dest: bit_imp_le_length)

lemma bit_byte_low:
  fixes w :: "'a::len word"
  shows "bit (ucast (ucast w :: byte) :: 'a word) n \<longleftrightarrow> n < 8 \<and> bit w n"
  by (auto simp: bit_simps dest: bit_imp_le_length)

lemma de16_be16: "de16 (be16 w) = w"
  unfolding de16_def be16_def
  by (rule bit_word_eqI) (auto simp: bit_or_iff bit_byte_at bit_byte_low)

lemma de32_be32: "de32 (be32 w) = w"
  unfolding de32_def be32_def
  by (rule bit_word_eqI) (auto simp: bit_or_iff bit_byte_at bit_byte_low)

lemma de64_be64: "de64 (be64 w) = w"
  unfolding de64_def be64_def
  by (rule bit_word_eqI) (auto simp: bit_or_iff bit_byte_at bit_byte_low)

lemma length_be [simp]: "length (be64 w) = 8" "length (be32 v) = 4" "length (be16 u) = 2"
  by (simp_all add: be64_def be32_def be16_def)

lemma MarshalBinary_shape:
  assumes "MarshalBinary t = Inr b"
  shows "\<exists>v z. b = [v] @ be64 (sec t) @ be32 (nsec t) @ z
           \<and> (v = 1 \<and> length z = 2 \<or> v = 2 \<and> length z = 3)"
  using assms
  by (auto simp: MarshalBinary_def Let_def split: option.splits if_splits)

lemma slot_decodes:
  assumes "MarshalBinary t = Inr b"
  defines "b' \<equiv> (if length b = 15 then b @ [0] else b)"
  shows "length b' = 16"
    and "\<exists>t'. (if b' ! 0 = 1 then UnmarshalBinary (take 15 b') else UnmarshalBinary b') = Inr t'
               \<and> sec t' = sec t \<and> nsec t' = nsec t"
proof -
  from MarshalBinary_shape [OF assms(1)] obtain v z where
    b: "b = [v] @ be64 (sec t) @ be32 (nsec t) @ z"
    and vz: "v = 1 \<and> length z = 2 \<or> v = 2 \<and> length z = 3" by blast
  from vz show "length b' = 16" unfolding b'_def b by auto
  from vz show "\<exists>t'. (if b' ! 0 = 1 then UnmarshalBinary (take 15 b') else UnmarshalBinary b') = Inr t'
               \<and> sec t' = sec t \<and> nsec t' = nsec t"
  proof
    assume v1: "v = 1 \<and> length z = 2"
    then have "b' = b @ [0]" "length b = 15" unfolding b'_def b by auto
    then have "b' ! 0 = 1" "take 15 b' = b" using v1 b by auto
    moreover have "\<exists>t'. UnmarshalBinary b = Inr t' \<and> sec t' = sec t \<and> nsec t' = nsec t"
      using v1 unfolding b by (simp add: UnmarshalBinary_def Let_def de64_be64 de32_be32)
    ultimately show ?thesis by simp
  next
    assume v2: "v = 2 \<and> length z = 3"
    then have "b' = b" "length b = 16" unfolding b'_def b by auto
    then have "b' ! 0 = 2" using v2 b by auto
    moreover have "\<exists>t'. UnmarshalBinary b = Inr t' \<and> sec t' = sec t \<and> nsec t' = nsec t"
      using v2 unfolding b by (simp add: UnmarshalBinary_def Let_def de64_be64 de32_be32)
    ultimately show ?thesis using \<open>b' = b\<close> by simp
  qed
qed

lemma entry_record_split:
  assumes "encodable e"
  obtains b where "MarshalBinary (Time e) = Inr b"
    and "entry_record e = (if length b = 15 then b @ [0] else b) @ be64 (Offset e)"
    and "length (if length b = 15 then b @ [0] else b) = 16"
proof -
  from assms obtain b where m: "MarshalBinary (Time e) = Inr b"
    by (auto simp: encodable_def split: sum.splits)
  then have "entry_record e = (if length b = 15 then b @ [0] else b) @ be64 (Offset e)"
    by (simp add: entry_record_def)
  moreover from slot_decodes(1) [OF m] have "length (if length b = 15 then b @ [0] else b) = 16" .
  ultimately show ?thesis using m that by blast
qed

lemma File_Write_fits:
  assumes "files s f = Some old" "length b \<le> quota s"
  shows "File_Write s f b = (s\<lparr>files := (files s)(f \<mapsto> old @ b), quota := quota s - length b\<rparr>, None)"
  using assms by (simp add: File_Write_def)

lemma writeIndex_loop_fits:
  assumes "files s f = Some old" "list_all encodable idx" "24 * length idx \<le> quota s"
  shows "writeIndex_loop s f idx
           = (s\<lparr>files := (files s)(f \<mapsto> old @ concat (map entry_record idx)),
                 quota := quota s - 24 * length idx\<rparr>, None)"
  using assms
proof (induction idx arbitrary: s old)
  case Nil
  then show ?case by (simp add: fun_upd_idem)
next
  case (Cons e idx)
  from Cons.prems(2) have enc: "encodable e" and rest: "list_all encodable idx" by simp_all
  from enc obtain b where m: "MarshalBinary (Time e) = Inr b"
    and r: "entry_record e = (if length b = 15 then b @ [0] else b) @ be64 (Offset e)"
    and l: "length (if length b = 15 then b @ [0] else b) = 16"
    by (rule entry_record_split)
  let ?b = "if length b = 15 then b @ [0] else b"
  let ?s1 = "s\<lparr>files := (files s)(f \<mapsto> old @ ?b), quota := quota s - 16\<rparr>"
  let ?s2 = "?s1\<lparr>files := (files ?s1)(f \<mapsto> (old @ ?b) @ be64 (Offset e)), quota := quota ?s1 - 8\<rparr>"
  from Cons.prems(3) have q: "16 \<le> quota s" "8 \<le> quota s - 16" "24 * length idx \<le> quota s - 16 - 8"
    by simp_all
  have w1: "File_Write s f ?b = (?s1, None)"
    using File_Write_fits [OF Cons.prems(1), of ?b] l q(1) by simp
  have w2: "File_Write ?s1 f (be64 (Offset e)) = (?s2, None)"
    using File_Write_fits [of ?s1 f "old @ ?b" "be64 (Offset e)"] q(2) by simp
  have f2: "files ?s2 f = Some ((old @ ?b) @ be64 (Offset e))" by simp
  have q2: "24 * length idx \<le> quota ?s2" using q(3) by simp
  have "writeIndex_loop s f (e # idx) = writeIndex_loop ?s2 f idx"
    using m w1 w2 by (simp add: Let_def)
  also have "\<dots> = (?s2\<lparr>files := (files ?s2)(f \<mapsto> ((old @ ?b) @ be64 (Offset e)) @ concat (map entry_record idx)),
                      quota := quota ?s2 - 24 * length idx\<rparr>, None)"
    by (rule Cons.IH [OF f2 rest q2])
  also have "\<dots> = (s\<lparr>files := (files s)(f \<mapsto> old @ concat (map entry_record (e # idx))),
                 quota := quota s - 24 * length (e # idx)\<rparr>, None)"
    using r by simp
  finally show ?case .
qed

lemma readIndexFile_loop_records:
  assumes "list_all encodable idx"
  shows "\<exists>idx'. readIndexFile_loop (concat (map entry_record idx)) acc = (acc @ idx', Some EOF)
                \<and> list_all2 same_record idx' idx"
  using assms
proof (induction idx arbitrary: acc)
  case Nil
  have "readIndexFile_loop [] acc = (acc, Some EOF)"
    by (subst readIndexFile_loop.simps) (simp add: Read16_def)
  then show ?case by simp
next
  case (Cons e idx)
  from Cons.prems have enc: "encodable e" and rest: "list_all encodable idx" by simp_all
  from enc obtain b where m: "MarshalBinary (Time e) = Inr b"
    and r: "entry_record e = (if length b = 15 then b @ [0] else b) @ be64 (Offset e)"
    and l: "length (if length b = 15 then b @ [0] else b) = 16"
    by (rule entry_record_split)
  let ?b = "if length b = 15 then b @ [0] else b"
  let ?tail = "concat (map entry_record idx)"
  from slot_decodes(2) [OF m] obtain t' where
    d: "(if ?b ! 0 = 1 then UnmarshalBinary (take 15 ?b) else UnmarshalBinary ?b) = Inr t'"
    and st: "sec t' = sec (Time e)" "nsec t' = nsec (Time e)" by blast
  let ?e' = "\<lparr>Time = t', Offset = Offset e\<rparr>"
  have bytes: "concat (map entry_record (e # idx)) = ?b @ be64 (Offset e) @ ?tail"
    using r by simp
  have r16: "Read16 (?b @ be64 (Offset e) @ ?tail) = (?b, be64 (Offset e) @ ?tail, None)"
    using l by (auto simp: Read16_def)
  have r8: "binary_Read_int64 (be64 (Offset e) @ ?tail) = Inr (Offset e, ?tail)"
    by (simp add: binary_Read_int64_def de64_be64) (simp add: be64_def)
  have step: "readIndexFile_loop (?b @ be64 (Offset e) @ ?tail) acc
                = readIndexFile_loop ?tail (acc @ [?e'])"
    by (subst readIndexFile_loop.simps) (simp add: r16 r8 d l del: append_assoc)
  from Cons.IH [OF rest, of "acc @ [?e']"] obtain idx' where
    i: "readIndexFile_loop ?tail (acc @ [?e']) = ((acc @ [?e']) @ idx', Some EOF)"
    and a: "list_all2 same_record idx' idx" by blast
  have "same_record ?e' e" using st by (simp add: same_record_def)
  with a have "list_all2 same_record (?e' # idx') (e # idx)" by simp
  moreover have "readIndexFile_loop (concat (map entry_record (e # idx))) acc = (acc @ ?e' # idx', Some EOF)"
    using bytes step i by simp
  ultimately show ?case by blast
qed

lemma writeIndex_fits:
  assumes "list_all encodable idx"
    and "indexFileName segPath \<notin> denied s" "indexFileName segPath @ ''.tmp'' \<notin> denied s"
    and "16 + 24 * length idx \<le> quota s"
  shows "\<exists>s'. writeIndex s segPath idx = (s', None)
            \<and> files s' (indexFileName segPath) = Some (sidx_header @ concat (map entry_record idx))"
proof -
  let ?idx = "indexFileName segPath"
  let ?tmp = "indexFileName segPath @ ''.tmp''"
  let ?s1 = "s\<lparr>files := (files s)(?tmp \<mapsto> [])\<rparr>"
  let ?s2 = "?s1\<lparr>files := (files ?s1)(?tmp \<mapsto> [] @ sidx_header), quota := quota ?s1 - length sidx_header\<rparr>"
  let ?s3 = "?s2\<lparr>files := (files ?s2)(?tmp \<mapsto> sidx_header @ concat (map entry_record idx)),
                 quota := quota ?s2 - 24 * length idx\<rparr>"
  have h: "length sidx_header = 16" by (simp add: sidx_header_def)
  have c: "os_Create s ?tmp = (?s1, None)" using assms(3) by (simp add: os_Create_def)
  have w: "File_Write ?s1 ?tmp sidx_header = (?s2, None)"
    using File_Write_fits [of ?s1 ?tmp "[]" sidx_header] assms(4) h by simp
  have l: "writeIndex_loop ?s2 ?tmp idx = (?s3, None)"
    using writeIndex_loop_fits [of ?s2 ?tmp sidx_header idx] assms(1,4) h by simp
  have ne: "?tmp \<noteq> ?idx" by simp
  have r: "os_Rename ?s3 ?tmp ?idx
             = (?s3\<lparr>files := ((files ?s3)(?tmp := None))(?idx \<mapsto> sidx_header @ concat (map entry_record idx))\<rparr>, None)"
    using assms(2) by (simp add: os_Rename_def)
  have "writeIndex s segPath idx
          = (?s3\<lparr>files := ((files ?s3)(?tmp := None))(?idx \<mapsto> sidx_header @ concat (map entry_record idx))\<rparr>, None)"
    unfolding writeIndex_def Let_def c
    by (simp only: prod.case option.case w fst_conv l r if_False simp_thms)
  then show ?thesis by simp
qed

lemma readIndexFile_of_records:
  assumes "list_all encodable idx"
    and "files s p = Some (sidx_header @ concat (map entry_record idx))"
  shows "\<exists>idx'. readIndexFile s p = (idx', None) \<and> list_all2 same_record idx' idx"
proof -
  from readIndexFile_loop_records [OF assms(1), of "[]"] obtain idx' where
    l: "readIndexFile_loop (concat (map entry_record idx)) [] = (idx', Some EOF)"
    and a: "list_all2 same_record idx' idx" by auto
  have r: "Read16 (sidx_header @ concat (map entry_record idx))
             = (sidx_header, concat (map entry_record idx), None)"
    by (simp add: Read16_def sidx_header_def)
  have "readIndexFile s p = (idx', None)"
    unfolding readIndexFile_def assms(2) by (simp add: r l) (simp add: sidx_header_def)
  with a show ?thesis by blast
qed

lemma same_record_Equal: "same_record a b \<Longrightarrow> Offset a = Offset b \<and> Equal (Time a) (Time b)"
  by (simp add: same_record_def Equal_def instant_def)

text \<open>
  C6 (as amended). Take a list of entries whose times all have a binary encoding, and a
  file system that lets the temporary and the final file be created and has room for the
  16 bytes of the header and the 24 bytes of each record. Then \<open>writeIndex\<close> returns no
  error, and \<open>readIndexFile\<close> on the sidecar returns no error and a list of the same
  length whose entries have the same offsets and, at the precision of the encoding
  (seconds and nanoseconds), the same times. The list may be empty and need not be
  sorted.
\<close>

theorem sidecar_round_trip:
  assumes "list_all encodable idx"
    and "indexFileName segPath \<notin> denied s"
    and "indexFileName segPath @ ''.tmp'' \<notin> denied s"
    and "16 + 24 * length idx \<le> quota s"
  shows "\<exists>s' idx'. writeIndex s segPath idx = (s', None)
           \<and> readIndexFile s' (indexFileName segPath) = (idx', None)
           \<and> list_all2 same_record idx' idx
           \<and> list_all2 (\<lambda>a b. Offset a = Offset b \<and> Equal (Time a) (Time b)) idx' idx"
proof -
  from writeIndex_fits [OF assms] obtain s' where
    w: "writeIndex s segPath idx = (s', None)"
    and f: "files s' (indexFileName segPath) = Some (sidx_header @ concat (map entry_record idx))"
    by blast
  from readIndexFile_of_records [OF assms(1) f] obtain idx' where
    r: "readIndexFile s' (indexFileName segPath) = (idx', None)"
    and a: "list_all2 same_record idx' idx" by blast
  from a have "list_all2 (\<lambda>a b. Offset a = Offset b \<and> Equal (Time a) (Time b)) idx' idx"
    by (rule list_all2_mono) (rule same_record_Equal)
  with w r a show ?thesis by blast
qed

theorem sidecar_round_trip_witness:
  "list_all encodable
     [entry_at 1 0, \<lparr>Time = \<lparr>sec = 2, nsec = 500, zone = Some 3630\<rparr>, Offset = 77\<rparr>]
   \<and> indexFileName ''rec/seg.mp4'' \<notin> denied \<lparr>files = Map.empty, quota = 100, denied = {}\<rparr>
   \<and> indexFileName ''rec/seg.mp4'' @ ''.tmp'' \<notin> denied \<lparr>files = Map.empty, quota = 100, denied = {}\<rparr>
   \<and> 16 + 24 * length [entry_at 1 0, \<lparr>Time = \<lparr>sec = 2, nsec = 500, zone = Some 3630\<rparr>, Offset = 77\<rparr>]
        \<le> quota \<lparr>files = Map.empty, quota = 100, denied = {}\<rparr>
   \<and> snd (writeIndex \<lparr>files = Map.empty, quota = 100, denied = {}\<rparr> ''rec/seg.mp4''
             [entry_at 1 0, \<lparr>Time = \<lparr>sec = 2, nsec = 500, zone = Some 3630\<rparr>, Offset = 77\<rparr>]) = None
   \<and> readIndexFile
         (fst (writeIndex \<lparr>files = Map.empty, quota = 100, denied = {}\<rparr> ''rec/seg.mp4''
                 [entry_at 1 0, \<lparr>Time = \<lparr>sec = 2, nsec = 500, zone = Some 3630\<rparr>, Offset = 77\<rparr>]))
         ''rec/seg.idx''
       = ([entry_at 1 0, \<lparr>Time = \<lparr>sec = 2, nsec = 500, zone = Some 3630\<rparr>, Offset = 77\<rparr>], None)
   \<and> list_all2 same_record
         [entry_at 1 0, \<lparr>Time = \<lparr>sec = 2, nsec = 500, zone = Some 3630\<rparr>, Offset = 77\<rparr>]
         [entry_at 1 0, \<lparr>Time = \<lparr>sec = 2, nsec = 500, zone = Some 3630\<rparr>, Offset = 77\<rparr>]"
proof -
  let ?idx = "[entry_at 1 0, \<lparr>Time = \<lparr>sec = 2, nsec = 500, zone = Some 3630\<rparr>, Offset = 77\<rparr>]"
  let ?s = "\<lparr>files = Map.empty, quota = 100, denied = {}\<rparr>"
  have h1: "list_all encodable ?idx" by code_simp
  have h2: "indexFileName ''rec/seg.mp4'' \<notin> denied ?s" by simp
  have h3: "indexFileName ''rec/seg.mp4'' @ ''.tmp'' \<notin> denied ?s" by simp
  have h4: "16 + 24 * length ?idx \<le> quota ?s" by simp
  have n: "indexFileName ''rec/seg.mp4'' = ''rec/seg.idx''" by code_simp
  have e1: "snd (writeIndex ?s ''rec/seg.mp4'' ?idx) = None" by code_simp
  have e2: "readIndexFile (fst (writeIndex ?s ''rec/seg.mp4'' ?idx)) ''rec/seg.idx'' = (?idx, None)"
    by code_simp
  from sidecar_round_trip [OF h1 h2 h3 h4] obtain s' idx' where
    w: "writeIndex ?s ''rec/seg.mp4'' ?idx = (s', None)"
    and r: "readIndexFile s' (indexFileName ''rec/seg.mp4'') = (idx', None)"
    and a: "list_all2 same_record idx' ?idx" by blast
  from w r e2 n have "idx' = ?idx" by simp
  with a have "list_all2 same_record ?idx ?idx" by simp
  with h1 h2 h3 h4 e1 e2 show ?thesis by blast
qed

text \<open>
  The claim as first stated fails on a list whose time has no binary encoding (a zone
  90 seconds west of UTC: the offset in minutes is -1, the value the encoding keeps for
  UTC). The loop of \<open>writeIndex\<close> stops at that entry, the file with the header alone is
  renamed into place, no error is returned, and reading it back gives the empty list.
\<close>

theorem sidecar_round_trip_counterexample:
  "MarshalBinary \<lparr>sec = 1, nsec = 0, zone = Some (- 90)\<rparr> = Inl ErrZoneOffset
   \<and> snd (writeIndex \<lparr>files = Map.empty, quota = 100, denied = {}\<rparr> ''rec/seg.mp4''
             [\<lparr>Time = \<lparr>sec = 1, nsec = 0, zone = Some (- 90)\<rparr>, Offset = 5\<rparr>]) = None
   \<and> readIndexFile
         (fst (writeIndex \<lparr>files = Map.empty, quota = 100, denied = {}\<rparr> ''rec/seg.mp4''
                 [\<lparr>Time = \<lparr>sec = 1, nsec = 0, zone = Some (- 90)\<rparr>, Offset = 5\<rparr>]))
         (indexFileName ''rec/seg.mp4'')
       = ([], None)"
  by code_simp

text \<open>
  C2. A sidecar whose header starts with the bytes \<open>S Q L !\<close> and the version byte 9,
  followed by one record: only the first of the four magic bytes is right, and
  \<open>readIndexFile\<close> returns the record and no error. The header is refused only when
  all four bytes are wrong (or the file is shorter than 16 bytes); the version byte is
  never read.
\<close>

theorem readIndexFile_accepts_wrong_magic:
  "readIndexFile
     \<lparr>files = [''seg.idx'' \<mapsto>
                 [of_char (CHR ''S''), of_char (CHR ''Q''), of_char (CHR ''L''), of_char (CHR ''!''), 9]
                   @ replicate 11 0 @ entry_record (entry_at 1 5)],
      quota = 0, denied = {}\<rparr> ''seg.idx''
     = ([entry_at 1 5], None)
   \<and> readIndexFile
       \<lparr>files = [''seg.idx'' \<mapsto> replicate 16 0 @ entry_record (entry_at 1 5)],
        quota = 0, denied = {}\<rparr> ''seg.idx''
     = ([], Some ErrIndexIsOld)"
  by code_simp

theorem readIndexFile_accepts_wrong_magic_witness:
  "fst (readIndexFile
          \<lparr>files = [''seg.idx'' \<mapsto>
                      [of_char (CHR ''S''), of_char (CHR ''Q''), of_char (CHR ''L''), of_char (CHR ''!''), 9]
                        @ replicate 11 0 @ entry_record (entry_at 1 5)],
           quota = 0, denied = {}\<rparr> ''seg.idx'')
     = [entry_at 1 5]"
  using readIndexFile_accepts_wrong_magic by simp

text \<open>
  C5. A sidecar of one record is in place and the device has room for 20 more bytes.
  \<open>writeIndex\<close> for two entries writes the header, fails in the first record (the loop
  ends with the error of the write), and still renames the temporary file over the
  sidecar and returns no error: the test after the loop reads the \<open>err\<close> of \<open>os.Create\<close>.
  The sidecar now holds the header and four bytes.
\<close>

theorem writeIndex_replaces_sidecar_after_failed_write:
  "snd (writeIndex_loop
          (fst (File_Write
                  (fst (os_Create
                          \<lparr>files = [''seg.idx'' \<mapsto> sidx_header @ entry_record (entry_at 1 0)],
                           quota = 20, denied = {}\<rparr> ''seg.idx.tmp''))
                  ''seg.idx.tmp'' sidx_header))
          ''seg.idx.tmp'' [entry_at 1 0, entry_at 2 5]) = Some ErrNoSpace
   \<and> snd (writeIndex
            \<lparr>files = [''seg.idx'' \<mapsto> sidx_header @ entry_record (entry_at 1 0)],
             quota = 20, denied = {}\<rparr> ''seg.mp4'' [entry_at 1 0, entry_at 2 5]) = None
   \<and> files (fst (writeIndex
                   \<lparr>files = [''seg.idx'' \<mapsto> sidx_header @ entry_record (entry_at 1 0)],
                    quota = 20, denied = {}\<rparr> ''seg.mp4'' [entry_at 1 0, entry_at 2 5])) ''seg.idx''
       = Some (sidx_header @ take 4 (entry_record (entry_at 1 0)))
   \<and> files (fst (writeIndex
                   \<lparr>files = [''seg.idx'' \<mapsto> sidx_header @ entry_record (entry_at 1 0)],
                    quota = 20, denied = {}\<rparr> ''seg.mp4'' [entry_at 1 0, entry_at 2 5])) ''seg.idx.tmp''
       = None"
  by code_simp

subsection \<open>The segment scanner\<close>

lemma readBoxStructure_append:
  "readBoxStructure tracks start st (pre @ post) =
     (case readBoxStructure tracks start st pre of
        Panic \<Rightarrow> Panic
      | Return (st', Some e) \<Rightarrow> Return (st', Some e)
      | Return (st', None) \<Rightarrow> readBoxStructure tracks start st' post)"
  by (induction pre arbitrary: st) (auto split: go.splits option.splits)

lemma readBoxStructure_stops:
  assumes "readBoxStructure tracks start st pre = Return (st1, None)"
    and "handler tracks start st1 b = Return (st2, Some e)"
  shows "readBoxStructure tracks start st (pre @ b # post) = Return (st2, Some e)"
  using assms by (simp add: readBoxStructure_append)

text \<open>
  C7 (as amended). A box of a fragment on which the handler returns an error ends the
  scan of the segment: when the walk reaches the box \<open>bad\<close> inside a \<open>traf\<close> inside a
  \<open>moof\<close> and the handler fails there, \<open>scanSegment\<close> returns that error with the entries
  collected so far, the boxes after it (\<open>k3\<close>, \<open>k4\<close>, \<open>post\<close>: the remaining fragments) are
  not visited, and \<open>IndexPath\<close> merges nothing for the segment. The handler fails on a
  \<open>tfhd\<close> or \<open>tfdt\<close> box whose payload does not decode just as it fails on a track id
  that is not among the tracks.
\<close>

theorem malformed_fragment_aborts_scan:
  assumes "disk (Fpath seg) = Some f" and "init_tracks f = Inr tracks"
    and "boxes f = pre @ Box ''moof'' off (Some p1)
                           (k1 @ Box ''traf'' off' (Some p2) (k2 @ bad # k3) # k4) # post"
    and "readBoxStructure tracks (Truncate_0 (Start seg)) (scanSegment_vars seg) pre
           = Return (st1, None)"
    and "readBoxStructure tracks (Truncate_0 (Start seg)) (st1\<lparr>moofOffset := off\<rparr>) k1
           = Return (st2, None)"
    and "readBoxStructure tracks (Truncate_0 (Start seg)) st2 k2 = Return (st3, None)"
    and "handler tracks (Truncate_0 (Start seg)) st3 bad = Return (st4, Some e)"
  shows "scanSegment disk seg = Return (index_list st4, Some e)
     \<and> IndexPath_scan disk s i pathName seg = Return (i, s)
     \<and> handler tracks' start' st' (Box ''tfhd'' o' None ks') = Return (st', Some ErrDecode)
     \<and> handler tracks' start' st' (Box ''tfdt'' o' None ks') = Return (st', Some ErrDecode)
     \<and> (findInitTrack tracks' (ucast trackID) = None \<longrightarrow>
          handler tracks' start' st' (Box ''tfhd'' o' (Some (Tfhd trackID)) ks')
            = Return (st', Some (ErrInvalidTrackID trackID)))"
proof -
  let ?start = "Truncate_0 (Start seg)"
  have traf: "handler tracks ?start st2 (Box ''traf'' off' (Some p2) (k2 @ bad # k3))
                = Return (st4, Some e)"
    using readBoxStructure_stops [OF assms(6,7), of k3] by simp
  have moof: "handler tracks ?start st1
                (Box ''moof'' off (Some p1) (k1 @ Box ''traf'' off' (Some p2) (k2 @ bad # k3) # k4))
                = Return (st4, Some e)"
    using readBoxStructure_stops [OF assms(5) traf, of k4] by simp
  have "readBoxStructure tracks ?start (scanSegment_vars seg) (boxes f) = Return (st4, Some e)"
    unfolding assms(3) by (rule readBoxStructure_stops [OF assms(4) moof])
  then have scan: "scanSegment disk seg = Return (index_list st4, Some e)"
    using assms(1,2) by (simp add: scanSegment_def)
  then have "IndexPath_scan disk s i pathName seg = Return (i, s)"
    by (simp add: IndexPath_scan_def)
  with scan show ?thesis by simp
qed

theorem malformed_fragment_aborts_scan_witness:
  "scanSegment [''a.mp4'' \<mapsto> two_fragments None] \<lparr>Fpath = ''a.mp4'', Start = at_sec 100\<rparr>
     = Return ([entry_at 100 0], Some ErrDecode)
   \<and> IndexPath_scan [''a.mp4'' \<mapsto> two_fragments None] \<lparr>files = Map.empty, quota = 100, denied = {}\<rparr>
         (index_of ''cam'' []) ''cam'' \<lparr>Fpath = ''a.mp4'', Start = at_sec 100\<rparr>
     = Return (index_of ''cam'' [], \<lparr>files = Map.empty, quota = 100, denied = {}\<rparr>)
   \<and> findInitTrack [\<lparr>ID = 1, TimeScale = 90000\<rparr>] (ucast (7 :: 32 word)) = None
   \<and> handler [\<lparr>ID = 1, TimeScale = 90000\<rparr>] (at_sec 100)
         (scanSegment_vars \<lparr>Fpath = ''a.mp4'', Start = at_sec 100\<rparr>)
         (Box ''tfhd'' 132 (Some (Tfhd 7)) [])
     = Return (scanSegment_vars \<lparr>Fpath = ''a.mp4'', Start = at_sec 100\<rparr>,
               Some (ErrInvalidTrackID 7))"
proof -
  let ?seg = "\<lparr>Fpath = ''a.mp4'', Start = at_sec 100\<rparr>"
  let ?disk = "[''a.mp4'' \<mapsto> two_fragments None]"
  let ?tracks = "[\<lparr>ID = 1, TimeScale = 90000\<rparr>]"
  let ?st = "scanSegment_vars ?seg"
  let ?st3 = "?st\<lparr>moofOffset := 100, timeScale := 90000\<rparr>"
  have a1: "?disk (Fpath ?seg) = Some (two_fragments None)" by simp
  have a2: "init_tracks (two_fragments None) = Inr ?tracks" by (simp add: two_fragments_def)
  have a3: "boxes (two_fragments None)
              = [Box ''ftyp'' 0 (Some Other) [], Box ''moov'' 24 (Some Other) []]
                @ Box ''moof'' 100 (Some Other)
                    ([Box ''mfhd'' 108 (Some Other) []]
                     @ Box ''traf'' 124 (Some Other)
                         ([Box ''tfhd'' 132 (Some (Tfhd 1)) []] @ Box ''tfdt'' 148 None [] # []) # [])
                # [Box ''mdat'' 168 (Some Other) [],
                   Box ''moof'' 200 (Some Other)
                     [Box ''mfhd'' 208 (Some Other) [],
                      Box ''traf'' 224 (Some Other)
                        [Box ''tfhd'' 232 (Some (Tfhd 1)) [],
                         Box ''tfdt'' 248 (Some (Tfdt 180000)) []]],
                   Box ''mdat'' 268 (Some Other) []]"
    by (simp add: two_fragments_def)
  have a4: "readBoxStructure ?tracks (Truncate_0 (Start ?seg)) ?st
              [Box ''ftyp'' 0 (Some Other) [], Box ''moov'' 24 (Some Other) []] = Return (?st, None)"
    by simp
  have a5: "readBoxStructure ?tracks (Truncate_0 (Start ?seg)) (?st\<lparr>moofOffset := 100\<rparr>)
              [Box ''mfhd'' 108 (Some Other) []] = Return (?st\<lparr>moofOffset := 100\<rparr>, None)"
    by simp
  have a6: "readBoxStructure ?tracks (Truncate_0 (Start ?seg)) (?st\<lparr>moofOffset := 100\<rparr>)
              [Box ''tfhd'' 132 (Some (Tfhd 1)) []] = Return (?st3, None)"
    by simp
  have a7: "handler ?tracks (Truncate_0 (Start ?seg)) ?st3 (Box ''tfdt'' 148 None [])
              = Return (?st3, Some ErrDecode)"
    by simp
  have n: "findInitTrack ?tracks (ucast (7 :: 32 word)) = None" by simp
  note inst = malformed_fragment_aborts_scan
    [where disk = ?disk and seg = ?seg and f = "two_fragments None" and tracks = ?tracks
       and s = "\<lparr>files = Map.empty, quota = 100, denied = {}\<rparr>" and i = "index_of ''cam'' []"
       and pathName = "''cam''" and tracks' = ?tracks and trackID = 7 and start' = "at_sec 100"
       and st' = ?st and o' = 132 and ks' = "[]",
     OF a1 a2 a3 a4 a5 a6 a7]
  have l: "index_list ?st3 = [entry_at 100 0]"
    by (simp add: scanSegment_vars_def entry_at_def Truncate_0_def)
  from inst n l show ?thesis by simp
qed

text \<open>
  The claim as first stated fails: in a segment of two fragments whose first \<open>tfdt\<close> box
  does not decode, the scan returns the decode error and the sentinel alone; the second
  fragment, which is well-formed, gets no entry. With a first \<open>tfdt\<close> box that decodes, the
  same segment gives the sentinel and an entry for each fragment.
\<close>

theorem malformed_fragment_counterexample:
  "scanSegment [''a.mp4'' \<mapsto> two_fragments None] \<lparr>Fpath = ''a.mp4'', Start = at_sec 100\<rparr>
     = Return ([entry_at 100 0], Some ErrDecode)
   \<and> scanSegment [''a.mp4'' \<mapsto> two_fragments (Some (Tfdt 0))]
         \<lparr>Fpath = ''a.mp4'', Start = at_sec 100\<rparr>
     = Return ([entry_at 100 0, entry_at 100 100, entry_at 102 200], None)"
  by code_simp

subsection \<open>Concurrent rebuilds\<close>

text \<open>
  C4. Two calls of \<open>IndexPath\<close> for the path \<open>cam\<close>. Both read \<open>i.running\<close> before either
  takes the lock (the read stands before \<open>i.Lock()\<close>), both find no mark, and each then
  takes the lock, sets the mark and goes on: after the turns 0, 1, 0, 0, 1, 1 both calls
  stand before their pass, and after two more turns two passes have begun. When the first
  call has set the mark before the second one reads, the second call returns and one pass
  begins.
\<close>

theorem two_rebuilds_both_pass:
  "places (run_schedule ''cam'' (two_calls ''cam'') [0, 1, 0, 0, 1, 1]) = [AtPass, AtPass]
   \<and> running (shared (run_schedule ''cam'' (two_calls ''cam'') [0, 1, 0, 0, 1, 1])) = {''cam''}
   \<and> passes (run_schedule ''cam'' (two_calls ''cam'') [0, 1, 0, 0, 1, 1, 0, 1]) = 2
   \<and> places (run_schedule ''cam'' (two_calls ''cam'') [0, 0, 0, 1, 1, 1]) = [AtPass, Returned]
   \<and> passes (run_schedule ''cam'' (two_calls ''cam'') [0, 0, 0, 1, 1, 1, 0, 0, 0, 1]) = 1"
  by code_simp

end
